theory Spec2Isabelle
  imports Main
begin

section \<open>SafeSQL: a shallow embedding of safesql.go\<close>

text \<open>
  The development follows \<^verbatim>\<open>safesql.go\<close>: the suppression resolver
  (\<^verbatim>\<open>CheckIssues\<close>, \<^verbatim>\<open>BeginsWithComment\<close>, \<^verbatim>\<open>HasIgnoreComment\<close>), the sink
  resolver (\<^verbatim>\<open>FindQueryMethods\<close>, \<^verbatim>\<open>FuncHasQuery\<close>) and the unsafe-call detector
  (\<^verbatim>\<open>FindNonConstCalls\<close>).

  \<^item> Go strings are byte sequences and are modelled as \<^typ>\<open>string\<close>.
  \<^item> Go's \<^verbatim>\<open>int\<close> is modelled as \<^typ>\<open>int\<close>. The only arithmetic of the program is
    \<^verbatim>\<open>line.Line - 2\<close>, \<^verbatim>\<open>line.Line - 1\<close>, \<^verbatim>\<open>m.ArgCount + 1\<close> and \<^verbatim>\<open>i++\<close> below a
    length; for a line number below 1 every path indexes out of range with or without
    wrap-around, so the unbounded model has the same outcomes.
  \<^item> A panic or an error return is a value \<open>Inl e\<close> of the result type.
  \<^item> The objects of the libraries (\<^verbatim>\<open>go/types\<close>, \<^verbatim>\<open>go/ssa\<close>, \<^verbatim>\<open>go/callgraph\<close>,
    \<^verbatim>\<open>go/token\<close>) are records and datatypes of what the program reads from them. Of the
    pointers the program follows, the call site of an edge and the package of a function
    may be nil in the model; the others (the caller node of an edge, its function, the
    function of a sink) are taken to be there.
  \<^item> The file system is a partial map from paths to contents.
\<close>

subsection \<open>Errors and panics\<close>

datatype error =
    FileReadError string      \<comment> \<open>\<^verbatim>\<open>ioutil.ReadFile\<close> failed; \<^verbatim>\<open>return nil, err\<close>\<close>
  | IndexOutOfRange           \<comment> \<open>run-time panic of \<^verbatim>\<open>xs[i]\<close>\<close>
  | SliceBoundsOutOfRange     \<comment> \<open>run-time panic of \<^verbatim>\<open>xs[1:]\<close>\<close>
  | ArgCountMismatch          \<comment> \<open>\<^verbatim>\<open>panic("arg count mismatch")\<close>\<close>
  | NilDereference            \<comment> \<open>run-time panic of a method call through nil\<close>
  | InterfaceConversion       \<comment> \<open>run-time panic of a failed type assertion\<close>

text \<open>\<^verbatim>\<open>xs[i]\<close> of Go: a panic when the index is out of range.\<close>

definition go_index :: "'a list \<Rightarrow> int \<Rightarrow> error + 'a" where
  "go_index xs i = (if 0 \<le> i \<and> i < int (length xs) then Inr (xs ! nat i) else Inl IndexOutOfRange)"

subsection \<open>The functions of package strings that the program calls\<close>

text \<open>
  \<^verbatim>\<open>strings.HasPrefix\<close> and \<^verbatim>\<open>strings.HasSuffix\<close>, as the library defines them:
  \<^verbatim>\<open>len(s) >= len(prefix) && s[0:len(prefix)] == prefix\<close> and
  \<^verbatim>\<open>len(s) >= len(suffix) && s[len(s)-len(suffix):] == suffix\<close>.
\<close>

definition HasPrefix :: "string \<Rightarrow> string \<Rightarrow> bool" where
  "HasPrefix s pre = (length pre \<le> length s \<and> take (length pre) s = pre)"

definition HasSuffix :: "string \<Rightarrow> string \<Rightarrow> bool" where
  "HasSuffix s suf = (length suf \<le> length s \<and> drop (length s - length suf) s = suf)"

text \<open>
  \<^verbatim>\<open>strings.Split(s, "\n")\<close>: the pieces between the newline bytes; one more piece than
  there are newlines, so the result is never empty and a text that ends with a newline
  has an empty last piece.
\<close>

fun Split :: "string \<Rightarrow> string list" where
  "Split [] = [[]]"
| "Split (c # cs) =
     (if c = CHR 0x0A then [] # Split cs
      else (case Split cs of [] \<Rightarrow> [[c]] | l # ls \<Rightarrow> (c # l) # ls))"

text \<open>
  \<^verbatim>\<open>strings.TrimSpace\<close> removes the leading and the trailing white space runes, as Unicode
  defines white space (\<^verbatim>\<open>unicode.IsSpace\<close>). A rune is one or more bytes of the string
  in UTF-8; \<open>spaceRunes\<close> lists the encodings of the white space runes: the six ASCII ones,
  U+0085, U+00A0, U+1680, U+2000 to U+200A, U+2028, U+2029, U+202F, U+205F and U+3000.
  A byte sequence that is not the encoding of one of them decodes to another rune (or to
  the error rune), which is not white space and stops the trimming.
\<close>

definition spaceRunes :: "string list" where
  "spaceRunes =
     [[CHR 0x09], [CHR 0x0A], [CHR 0x0B], [CHR 0x0C], [CHR 0x0D], [CHR 0x20],
      [CHR 0xC2, CHR 0x85], [CHR 0xC2, CHR 0xA0],
      [CHR 0xE1, CHR 0x9A, CHR 0x80],
      [CHR 0xE2, CHR 0x80, CHR 0x80], [CHR 0xE2, CHR 0x80, CHR 0x81],
      [CHR 0xE2, CHR 0x80, CHR 0x82], [CHR 0xE2, CHR 0x80, CHR 0x83],
      [CHR 0xE2, CHR 0x80, CHR 0x84], [CHR 0xE2, CHR 0x80, CHR 0x85],
      [CHR 0xE2, CHR 0x80, CHR 0x86], [CHR 0xE2, CHR 0x80, CHR 0x87],
      [CHR 0xE2, CHR 0x80, CHR 0x88], [CHR 0xE2, CHR 0x80, CHR 0x89],
      [CHR 0xE2, CHR 0x80, CHR 0x8A],
      [CHR 0xE2, CHR 0x80, CHR 0xA8], [CHR 0xE2, CHR 0x80, CHR 0xA9],
      [CHR 0xE2, CHR 0x80, CHR 0xAF],
      [CHR 0xE2, CHR 0x81, CHR 0x9F],
      [CHR 0xE3, CHR 0x80, CHR 0x80]]"

text \<open>The number of bytes of the white space rune that \<open>s\<close> begins with, 0 when there is none.\<close>

definition leadingSpace :: "string \<Rightarrow> nat" where
  "leadingSpace s = (case List.find (HasPrefix s) spaceRunes of None \<Rightarrow> 0 | Some r \<Rightarrow> length r)"

definition trailingSpace :: "string \<Rightarrow> nat" where
  "trailingSpace s = (case List.find (HasSuffix s) spaceRunes of None \<Rightarrow> 0 | Some r \<Rightarrow> length r)"

function TrimLeft :: "string \<Rightarrow> string" where
  "TrimLeft s = (if s = [] \<or> leadingSpace s = 0 then s else TrimLeft (drop (leadingSpace s) s))"
  by pat_completeness auto
termination
  by (relation "measure length") auto

function TrimRight :: "string \<Rightarrow> string" where
  "TrimRight s =
     (if s = [] \<or> trailingSpace s = 0 then s else TrimRight (take (length s - trailingSpace s) s))"
  by pat_completeness auto
termination
  by (relation "measure length") auto

definition TrimSpace :: "string \<Rightarrow> string" where
  "TrimSpace s = TrimRight (TrimLeft s)"

subsection \<open>Configuration\<close>

definition IgnoreComment :: string where
  "IgnoreComment = ''//nolint:safesql''"

record sqlPackage =
  packageName :: string
  paramNames :: "string list"
  enable :: bool

definition sqlPackages :: "sqlPackage list" where
  "sqlPackages =
     [\<lparr>packageName = ''database/sql'', paramNames = [''query''], enable = False\<rparr>,
      \<lparr>packageName = ''github.com/jinzhu/gorm'', paramNames = [''sql'', ''query''], enable = False\<rparr>,
      \<lparr>packageName = ''github.com/jmoiron/sqlx'', paramNames = [''query''], enable = False\<rparr>,
      \<lparr>packageName = ''github.com/jackc/pgx/v4'', paramNames = [''sql'', ''query''], enable = False\<rparr>]"

definition ignoredFiles :: "string list" where
  "ignoredFiles = [''github.com/jackc/pgx/v4/pgxpool/conn.go'']"

subsection \<open>The suppression resolver: CheckIssues\<close>

text \<open>\<^verbatim>\<open>token.Position\<close> and \<^verbatim>\<open>Issue\<close>.\<close>

record Position =
  Filename :: string
  Offset :: int
  Line :: int
  Column :: int

record Issue =
  statement :: Position
  ignored :: bool

definition BeginsWithComment :: "string \<Rightarrow> bool" where
  "BeginsWithComment line = HasPrefix (TrimSpace line) IgnoreComment"

definition HasIgnoreComment :: "string \<Rightarrow> bool" where
  "HasIgnoreComment line = HasSuffix (TrimSpace line) IgnoreComment"

text \<open>
  The first loop of \<^verbatim>\<open>CheckIssues\<close>: \<^verbatim>\<open>files[line.Filename] = append(files[line.Filename], line)\<close>.
\<close>

fun groupByFile :: "(string \<rightharpoonup> Position list) \<Rightarrow> Position list \<Rightarrow> (string \<rightharpoonup> Position list)" where
  "groupByFile files [] = files"
| "groupByFile files (line # rest) =
     groupByFile
       (files(Filename line \<mapsto> (case files (Filename line) of None \<Rightarrow> [] | Some ps \<Rightarrow> ps) @ [line]))
       rest"

text \<open>The loop over \<^verbatim>\<open>ignoredFiles\<close>, with its \<^verbatim>\<open>break\<close>.\<close>

fun fileIsIgnoredLoop :: "string \<Rightarrow> string list \<Rightarrow> bool" where
  "fileIsIgnoredLoop file [] = False"
| "fileIsIgnoredLoop file (ignoredFile # rest) =
     (if HasSuffix file ignoredFile then True else fileIsIgnoredLoop file rest)"

text \<open>
  The body of the loop over the findings of one file. The line before the finding is
  looked at only when its index is not negative; when it begins with the ignore comment
  the finding is appended as ignored and the loop continues, without reading the
  finding's own line. Both reads are \<^verbatim>\<open>fileLines[...]\<close> with no upper bound check.
\<close>

definition checkLine :: "bool \<Rightarrow> string list \<Rightarrow> Position \<Rightarrow> error + Issue" where
  "checkLine fileIsIgnored fileLines line =
     (let potentialCommentLine = Line line - 2 in
      case (if 0 \<le> potentialCommentLine
            then (case go_index fileLines potentialCommentLine of
                    Inl e \<Rightarrow> Inl e
                  | Inr previous \<Rightarrow> Inr (BeginsWithComment previous))
            else Inr False) of
        Inl e \<Rightarrow> Inl e
      | Inr True \<Rightarrow> Inr \<lparr>statement = line, ignored = True\<rparr>
      | Inr False \<Rightarrow>
          (case go_index fileLines (Line line - 1) of
             Inl e \<Rightarrow> Inl e
           | Inr current \<Rightarrow>
               Inr \<lparr>statement = line, ignored = (HasIgnoreComment current \<or> fileIsIgnored)\<rparr>))"

fun linesLoop :: "bool \<Rightarrow> string list \<Rightarrow> Issue list \<Rightarrow> Position list \<Rightarrow> error + Issue list" where
  "linesLoop fileIsIgnored fileLines issues [] = Inr issues"
| "linesLoop fileIsIgnored fileLines issues (line # rest) =
     (case checkLine fileIsIgnored fileLines line of
        Inl e \<Rightarrow> Inl e
      | Inr issue \<Rightarrow> linesLoop fileIsIgnored fileLines (issues @ [issue]) rest)"

text \<open>
  The loop over the map \<^verbatim>\<open>files\<close>. Go visits the keys of a map in an order it does not
  specify, so the order is a parameter: \<open>order\<close> lists the keys as one run visits them.
  \<^verbatim>\<open>sort.Slice\<close> orders the findings of a file by line; among findings of the same line
  it promises no order, and the model takes the stable one (\<^const>\<open>sort_key\<close>), which is
  also what \<^verbatim>\<open>sort.Slice\<close> computes for slices of at most 12 elements. The file system
  is the partial map \<open>readFile\<close> from paths to contents; \<open>None\<close> is a read error.
\<close>

fun filesLoop ::
  "(string \<rightharpoonup> string) \<Rightarrow> (string \<rightharpoonup> Position list) \<Rightarrow> Issue list \<Rightarrow> string list
     \<Rightarrow> error + Issue list" where
  "filesLoop readFile files issues [] = Inr issues"
| "filesLoop readFile files issues (file # rest) =
     (case files file of
        None \<Rightarrow> filesLoop readFile files issues rest
      | Some linesInFile \<Rightarrow>
          (let fileIsIgnored = fileIsIgnoredLoop file ignoredFiles;
               sortedLines = sort_key Line linesInFile
           in case readFile file of
                None \<Rightarrow> Inl (FileReadError file)
              | Some data \<Rightarrow>
                  (case linesLoop fileIsIgnored (Split data) issues sortedLines of
                     Inl e \<Rightarrow> Inl e
                   | Inr issues' \<Rightarrow> filesLoop readFile files issues' rest)))"

definition CheckIssues ::
  "string list \<Rightarrow> (string \<rightharpoonup> string) \<Rightarrow> Position list \<Rightarrow> error + Issue list" where
  "CheckIssues order readFile lines = filesLoop readFile (groupByFile Map.empty lines) [] order"

text \<open>An order in which a run can visit the keys of \<^verbatim>\<open>files\<close>: every key, once.\<close>

definition keyOrder :: "string list \<Rightarrow> Position list \<Rightarrow> bool" where
  "keyOrder order lines = (distinct order \<and> set order = set (map Filename lines))"

subsection \<open>The sink resolver: FindQueryMethods and FuncHasQuery\<close>

text \<open>
  The objects of \<^verbatim>\<open>go/types\<close> are modelled by what the program reads from them. Of a type
  (\<^verbatim>\<open>types.Type\<close>) the program asks whether it is \<^verbatim>\<open>types.Typ[types.String]\<close> and whether
  it is an interface type (\<^verbatim>\<open>types.IsInterface\<close>, which looks at the underlying type).
\<close>

datatype goType =
    TString                   \<comment> \<open>the predeclared type \<^verbatim>\<open>string\<close>\<close>
  | TBasic string             \<comment> \<open>another predeclared type\<close>
  | TInterface                \<comment> \<open>an interface type literal\<close>
  | TNamed string goType      \<comment> \<open>a defined type: its name and its underlying type\<close>
  | TOther string             \<comment> \<open>any other type (pointer, slice, struct, ...)\<close>

fun IsInterface :: "goType \<Rightarrow> bool" where
  "IsInterface TInterface = True"
| "IsInterface (TNamed name underlying) = IsInterface underlying"
| "IsInterface t = False"

text \<open>\<^verbatim>\<open>types.Var\<close>, \<^verbatim>\<open>types.Signature\<close> (the receiver is not one of \<^verbatim>\<open>Params()\<close>) and \<^verbatim>\<open>types.Func\<close>.\<close>

record Var =
  varName :: string
  varType :: goType

record Signature =
  Recv :: "Var option"
  Params :: "Var list"

record Func =
  funcName :: string
  funcExported :: bool
  funcType :: Signature

text \<open>
  An object of the package scope: a type name with the type it denotes, or another object
  (a function, a variable, a constant). A type name denotes a named type or, when it is an
  alias such as \<^verbatim>\<open>type T = []byte\<close>, a type that is not a \<^verbatim>\<open>*types.Named\<close>.

  A named type has two lists of methods. The first holds the methods declared with the
  type as their receiver, in the order of \<^verbatim>\<open>Method(i)\<close> for \<open>i < NumMethods()\<close>: they are
  all that \<^verbatim>\<open>NumMethods\<close> and \<^verbatim>\<open>Method\<close> give. The second holds the other methods of
  the type: the methods of its underlying interface type when it is an interface type
  (for which \<^verbatim>\<open>NumMethods()\<close> is 0), and the methods promoted from embedded fields.
  The program never reads the second list.
\<close>

datatype declaredType = Named "Func list" "Func list" | NotNamed goType

datatype Object = TypeName string bool declaredType | OtherObject string bool

fun Exported :: "Object \<Rightarrow> bool" where
  "Exported (TypeName name exported t) = exported"
| "Exported (OtherObject name exported) = exported"

text \<open>\<^verbatim>\<open>types.Package\<close>: its path and the objects of its scope, in the order of \<^verbatim>\<open>scope.Names()\<close>.\<close>

record Package =
  Path :: string
  Scope :: "Object list"

text \<open>
  \<^verbatim>\<open>*ssa.Function\<close>: the function's full name stands for the pointer, and \<open>PkgPath\<close> is
  \<^verbatim>\<open>Pkg.Pkg.Path()\<close>, \<open>None\<close> when \<^verbatim>\<open>Pkg\<close> is nil. \<^verbatim>\<open>ssa.Program\<close> is used through
  \<^verbatim>\<open>FuncValue\<close> only.
\<close>

record Function =
  fnName :: string
  PkgPath :: "string option"

record Program =
  FuncValue :: "Func \<Rightarrow> Function"

record QueryMethod =
  Func :: Func
  SSA :: Function
  ArgCount :: int
  Param :: int

text \<open>The inner loop of \<^verbatim>\<open>FuncHasQuery\<close>: \<^verbatim>\<open>v.Name() == paramName\<close> for one of the names.\<close>

fun paramNamesLoop :: "string \<Rightarrow> string list \<Rightarrow> bool" where
  "paramNamesLoop name [] = False"
| "paramNamesLoop name (paramName # rest) =
     (if name = paramName then True else paramNamesLoop name rest)"

text \<open>
  The outer loop, \<^verbatim>\<open>for i := 0; i < params.Len(); i++\<close>, from index \<open>i\<close> on. The
  parameter that the source calls \<^verbatim>\<open>sqlPackages\<close> (hiding the global list) is \<open>sqlPkg\<close> here.
\<close>

function FuncHasQueryFrom :: "sqlPackage \<Rightarrow> Signature \<Rightarrow> int \<Rightarrow> int \<times> bool" where
  "FuncHasQueryFrom sqlPkg s i =
     (if i < int (length (Params s))
      then (if paramNamesLoop (varName (Params s ! nat i)) (paramNames sqlPkg)
            then (i, True)
            else FuncHasQueryFrom sqlPkg s (i + 1))
      else (0, False))"
  by pat_completeness auto
termination
  by (relation "measure (\<lambda>(sqlPkg, s, i). nat (int (length (Params s)) - i))") auto

declare FuncHasQueryFrom.simps [simp del]

definition FuncHasQuery :: "sqlPackage \<Rightarrow> Signature \<Rightarrow> int \<times> bool" where
  "FuncHasQuery sqlPkg s = FuncHasQueryFrom sqlPkg s 0"

text \<open>The loop over the methods of one named type.\<close>

fun methodsLoop ::
  "sqlPackage \<Rightarrow> Program \<Rightarrow> QueryMethod list \<Rightarrow> Func list \<Rightarrow> QueryMethod list" where
  "methodsLoop sqlPkg ssa methods [] = methods"
| "methodsLoop sqlPkg ssa methods (m # rest) =
     (if \<not> funcExported m then methodsLoop sqlPkg ssa methods rest
      else
        (let s = funcType m in
         case FuncHasQuery sqlPkg s of
           (num, ok) \<Rightarrow>
             if ok
             then methodsLoop sqlPkg ssa
                    (methods @ [\<lparr>Func = m, SSA = FuncValue ssa m,
                                 ArgCount = int (length (Params s)), Param = num\<rparr>])
                    rest
             else methodsLoop sqlPkg ssa methods rest))"

text \<open>
  The loop over the names of the scope. The assertion \<^verbatim>\<open>o.Type().(*types.Named)\<close> has no
  \<^verbatim>\<open>ok\<close> result: it panics for an exported type name that does not denote a named type.
\<close>

fun namesLoop ::
  "sqlPackage \<Rightarrow> Program \<Rightarrow> QueryMethod list \<Rightarrow> Object list \<Rightarrow> error + QueryMethod list" where
  "namesLoop sqlPkg ssa methods [] = Inr methods"
| "namesLoop sqlPkg ssa methods (obj # rest) =
     (if \<not> Exported obj then namesLoop sqlPkg ssa methods rest
      else
        (case obj of
           OtherObject name exported \<Rightarrow> namesLoop sqlPkg ssa methods rest
         | TypeName name exported t \<Rightarrow>
             (case t of
                NotNamed u \<Rightarrow> Inl InterfaceConversion
              | Named ms others \<Rightarrow>
                  namesLoop sqlPkg ssa (methodsLoop sqlPkg ssa methods ms) rest)))"

definition FindQueryMethods :: "sqlPackage \<Rightarrow> Package \<Rightarrow> Program \<Rightarrow> error + QueryMethod list" where
  "FindQueryMethods sqlPkg sql ssa = namesLoop sqlPkg ssa [] (Scope sql)"

subsection \<open>The unsafe-call detector: FindNonConstCalls\<close>

text \<open>
  The values of package \<^verbatim>\<open>ssa\<close>, by what the detector asks of an argument: whether it is
  a \<^verbatim>\<open>*ssa.Const\<close>; whether it is a \<^verbatim>\<open>*ssa.MakeInterface\<close>, and then its own type and,
  of its operand \<^verbatim>\<open>X\<close>, the results of \<^verbatim>\<open>Referrers()\<close> and \<^verbatim>\<open>Type()\<close>. \<^verbatim>\<open>Referrers()\<close>
  is a pointer to the slice of the instructions that use the value; the pointer is nil
  (\<open>None\<close>) for the values whose uses package \<^verbatim>\<open>ssa\<close> does not record (constants,
  globals, named functions, builtins). Instructions are numbered.
\<close>

record Operand =
  Referrers :: "nat list option"
  Type :: goType

datatype Value =
    Const goType string              \<comment> \<open>a constant: its type and its value\<close>
  | MakeInterface nat goType Operand \<comment> \<open>the instruction's number, its type, its operand \<^verbatim>\<open>X\<close>\<close>
  | OtherValue string goType         \<comment> \<open>any other value: a parameter, a call, a concatenation, ...\<close>

text \<open>
  A call instruction: its source position (\<^verbatim>\<open>Fset.Position(ci.Pos())\<close>), the function it
  is in (\<^verbatim>\<open>Parent()\<close>) and the arguments of the call (\<^verbatim>\<open>Common().Args\<close>). An edge of the
  call graph: the function of the caller node and the call site, which may be nil. A node:
  its incoming edges. The graph maps functions to nodes.
\<close>

record CallInstruction =
  Pos :: Position
  Parent :: Function
  Args :: "Value list"

record Edge =
  Caller :: Function
  Site :: "CallInstruction option"

record Node =
  nodeFunc :: Function
  In :: "Edge list"

type_synonym Graph = "Function \<rightharpoonup> Node"

text \<open>\<^verbatim>\<open>cg.CreateNode(fn)\<close>: the node of \<open>fn\<close>, a new node without edges when there is none.\<close>

definition CreateNode :: "Graph \<Rightarrow> Function \<Rightarrow> Node" where
  "CreateNode cg fn = (case cg fn of Some node \<Rightarrow> node | None \<Rightarrow> \<lparr>nodeFunc = fn, In = []\<rparr>)"

text \<open>The loop over \<^verbatim>\<open>sqlPackages\<close> that sets \<^verbatim>\<open>isInternalSQLPkg\<close>, with its \<^verbatim>\<open>break\<close>.\<close>

fun isInternalSQLPkgLoop :: "string \<Rightarrow> sqlPackage list \<Rightarrow> bool" where
  "isInternalSQLPkgLoop path [] = False"
| "isInternalSQLPkgLoop path (pkg # rest) =
     (if packageName pkg = path then True else isInternalSQLPkgLoop path rest)"

text \<open>
  Lines 362 to 368: the argument list, without its first element when there is one more
  argument than the sink declares; \<^verbatim>\<open>args[1:]\<close> of an empty slice panics.
\<close>

definition sinkArgs :: "QueryMethod \<Rightarrow> Value list \<Rightarrow> error + Value list" where
  "sinkArgs m args =
     (if int (length args) = ArgCount m + 1
      then (case args of [] \<Rightarrow> Inl SliceBoundsOutOfRange | receiver # rest \<Rightarrow> Inr rest)
      else if int (length args) \<noteq> ArgCount m then Inl ArgCountMismatch
      else Inr args)"

text \<open>Line 369 after them: \<^verbatim>\<open>v := args[m.Param]\<close>.\<close>

definition sinkArgument :: "QueryMethod \<Rightarrow> CallInstruction \<Rightarrow> error + Value" where
  "sinkArgument m site =
     (case sinkArgs m (Args site) of Inl e \<Rightarrow> Inl e | Inr args \<Rightarrow> go_index args (Param m))"

definition isConst :: "Value \<Rightarrow> bool" where
  "isConst v = (case v of Const t c \<Rightarrow> True | _ \<Rightarrow> False)"

text \<open>Lines 372 to 376: the test that ends in \<^verbatim>\<open>continue\<close> for a boxed value.\<close>

definition boxedSafely :: "Value \<Rightarrow> bool" where
  "boxedSafely v =
     (case v of
        MakeInterface box t x \<Rightarrow> IsInterface t \<and> (Referrers x = None \<or> Type x \<noteq> TString)
      | _ \<Rightarrow> False)"

text \<open>The body of the loop over the incoming edges of the node of sink \<open>m\<close>.\<close>

definition edgeBody ::
  "Function set \<Rightarrow> QueryMethod \<Rightarrow> CallInstruction list \<Rightarrow> Edge \<Rightarrow> error + CallInstruction list" where
  "edgeBody okFuncs m bad edge =
     (case Site edge of
        None \<Rightarrow> Inl NilDereference
      | Some site \<Rightarrow>
          if Parent site \<in> okFuncs then Inr bad
          else
            (case PkgPath (Caller edge) of
               None \<Rightarrow> Inl NilDereference
             | Some path \<Rightarrow>
                 if isInternalSQLPkgLoop path sqlPackages then Inr bad
                 else
                   (case sinkArgument m site of
                      Inl e \<Rightarrow> Inl e
                    | Inr v \<Rightarrow>
                        if \<not> isConst v
                        then (if boxedSafely v then Inr bad else Inr (bad @ [site]))
                        else Inr bad)))"

fun edgesLoop ::
  "Function set \<Rightarrow> QueryMethod \<Rightarrow> CallInstruction list \<Rightarrow> Edge list
     \<Rightarrow> error + CallInstruction list" where
  "edgesLoop okFuncs m bad [] = Inr bad"
| "edgesLoop okFuncs m bad (edge # rest) =
     (case edgeBody okFuncs m bad edge of
        Inl e \<Rightarrow> Inl e
      | Inr bad' \<Rightarrow> edgesLoop okFuncs m bad' rest)"

fun sinksLoop ::
  "Graph \<Rightarrow> Function set \<Rightarrow> CallInstruction list \<Rightarrow> QueryMethod list
     \<Rightarrow> error + CallInstruction list" where
  "sinksLoop cg okFuncs bad [] = Inr bad"
| "sinksLoop cg okFuncs bad (m # rest) =
     (case edgesLoop okFuncs m bad (In (CreateNode cg (SSA m))) of
        Inl e \<Rightarrow> Inl e
      | Inr bad' \<Rightarrow> sinksLoop cg okFuncs bad' rest)"

text \<open>
  \<^verbatim>\<open>cg.DeleteSyntheticNodes()\<close> belongs to package \<^verbatim>\<open>callgraph\<close>; it is a parameter. The
  map \<^verbatim>\<open>okFuncs\<close> has the functions of the sinks as its keys.
\<close>

definition FindNonConstCalls ::
  "(Graph \<Rightarrow> Graph) \<Rightarrow> Graph \<Rightarrow> QueryMethod list \<Rightarrow> error + CallInstruction list" where
  "FindNonConstCalls DeleteSyntheticNodes cg qms =
     (let cg' = DeleteSyntheticNodes cg;
          okFuncs = set (map SSA qms)
      in sinksLoop cg' okFuncs [] qms)"

text \<open>In \<^verbatim>\<open>main\<close>: the positions of the call sites, handed to \<^verbatim>\<open>CheckIssues\<close>.\<close>

definition potentialBadStatements :: "CallInstruction list \<Rightarrow> Position list" where
  "potentialBadStatements bad = map Pos bad"

subsection \<open>The suppression rules, as the specification words them\<close>

text \<open>Source line \<open>n\<close> of a file, counted from 1; \<open>None\<close> when the file has no such line.\<close>

definition lineAt :: "string list \<Rightarrow> int \<Rightarrow> string option" where
  "lineAt fileLines n =
     (if 1 \<le> n \<and> n \<le> int (length fileLines) then Some (fileLines ! nat (n - 1)) else None)"

text \<open>
  Rule (i), read as the specification stresses it: the line before the finding consists,
  after trimming, exactly of the ignore marker.
\<close>

definition precedingLineIsMarker :: "string list \<Rightarrow> Position \<Rightarrow> bool" where
  "precedingLineIsMarker fileLines p =
     (case lineAt fileLines (Line p - 1) of None \<Rightarrow> False | Some l \<Rightarrow> TrimSpace l = IgnoreComment)"

text \<open>Rule (i) with the marker as a prefix only: anything may follow it on the line.\<close>

definition precedingLineBeginsWithMarker :: "string list \<Rightarrow> Position \<Rightarrow> bool" where
  "precedingLineBeginsWithMarker fileLines p =
     (case lineAt fileLines (Line p - 1) of
        None \<Rightarrow> False
      | Some l \<Rightarrow> HasPrefix (TrimSpace l) IgnoreComment)"

text \<open>Rule (ii): the flagged line ends, after trimming, with the marker.\<close>

definition ownLineEndsWithMarker :: "string list \<Rightarrow> Position \<Rightarrow> bool" where
  "ownLineEndsWithMarker fileLines p =
     (case lineAt fileLines (Line p) of
        None \<Rightarrow> False
      | Some l \<Rightarrow> HasSuffix (TrimSpace l) IgnoreComment)"

text \<open>Whole-file suppression: the path ends with an entry of the ignored-files list.\<close>

definition pathIsIgnored :: "string \<Rightarrow> bool" where
  "pathIsIgnored file = (\<exists>ignoredFile\<in>set ignoredFiles. HasSuffix file ignoredFile)"

definition suppressedAsClaimed :: "string list \<Rightarrow> Position \<Rightarrow> bool" where
  "suppressedAsClaimed fileLines p =
     (precedingLineIsMarker fileLines p \<or> ownLineEndsWithMarker fileLines p \<or> pathIsIgnored (Filename p))"

definition suppressed :: "string list \<Rightarrow> Position \<Rightarrow> bool" where
  "suppressed fileLines p =
     (precedingLineBeginsWithMarker fileLines p \<or> ownLineEndsWithMarker fileLines p \<or> pathIsIgnored (Filename p))"

text \<open>The finding's line number is one of the lines of the file.\<close>

definition withinFile :: "string list \<Rightarrow> Position \<Rightarrow> bool" where
  "withinFile fileLines p = (1 \<le> Line p \<and> Line p \<le> int (length fileLines))"

subsection \<open>Concrete inputs\<close>

definition appFile :: string where
  "appFile = ''/src/app/db.go''"

definition commentedSource :: string where
  "commentedSource = ''  //nolint:safesql reviewed'' @ [CHR 0x0A] @ ''rows, err := db.Query(q)''"

definition markerOnlySource :: string where
  "markerOnlySource = ''//nolint:safesql''"

definition shortSource :: string where
  "shortSource = ''rows, err := db.Query(q)''"

definition findingAt :: "string \<Rightarrow> int \<Rightarrow> Position" where
  "findingAt file n = \<lparr>Filename = file, Offset = 0, Line = n, Column = 14\<rparr>"

subsection \<open>The sink resolver, as the specification words it\<close>

text \<open>
  A parameter is sensitive when its name is one of the sensitive names of the package; its
  type is not looked at. \<open>firstMatch\<close>: position \<open>k\<close> holds the first sensitive
  parameter in the order of declaration.

  The specification speaks of every exported method of every exported named type. Read
  as it stands, that is every method the type has: \<open>exportedMethodsAsClaimed\<close> takes both
  lists of the named type, and \<open>sinkMethodsAsClaimed\<close> keeps those with a sensitive
  parameter. \<open>exportedDeclaredMethods\<close> and \<open>sinkMethods\<close> are the narrower reading: only
  the methods declared with the exported named type as their receiver.

  \<open>typeNamesAreNamed\<close>: no exported type name of the scope is an alias of a type that is
  not a named type. \<open>mkSink\<close> is the record that \<^verbatim>\<open>FindQueryMethods\<close> appends for a method.
\<close>

definition sensitive :: "sqlPackage \<Rightarrow> Var \<Rightarrow> bool" where
  "sensitive sqlPkg v = (varName v \<in> set (paramNames sqlPkg))"

definition firstMatch :: "sqlPackage \<Rightarrow> Var list \<Rightarrow> nat \<Rightarrow> bool" where
  "firstMatch sqlPkg ps k =
     (k < length ps \<and> sensitive sqlPkg (ps ! k) \<and> (\<forall>j<k. \<not> sensitive sqlPkg (ps ! j)))"

fun exportedMethodsAsClaimed :: "Object \<Rightarrow> Func list" where
  "exportedMethodsAsClaimed (TypeName name exported (Named ms others)) =
     (if exported then filter funcExported (ms @ others) else [])"
| "exportedMethodsAsClaimed obj = []"

definition sinkMethodsAsClaimed :: "sqlPackage \<Rightarrow> Object list \<Rightarrow> Func list" where
  "sinkMethodsAsClaimed sqlPkg objs =
     filter (\<lambda>m. \<exists>v\<in>set (Params (funcType m)). sensitive sqlPkg v)
       (concat (map exportedMethodsAsClaimed objs))"

fun exportedDeclaredMethods :: "Object \<Rightarrow> Func list" where
  "exportedDeclaredMethods (TypeName name exported (Named ms others)) =
     (if exported then filter funcExported ms else [])"
| "exportedDeclaredMethods obj = []"

definition sinkMethods :: "sqlPackage \<Rightarrow> Object list \<Rightarrow> Func list" where
  "sinkMethods sqlPkg objs =
     filter (\<lambda>m. \<exists>v\<in>set (Params (funcType m)). sensitive sqlPkg v)
       (concat (map exportedDeclaredMethods objs))"

fun denotesNamed :: "Object \<Rightarrow> bool" where
  "denotesNamed (TypeName name exported (NotNamed u)) = (\<not> exported)"
| "denotesNamed obj = True"

definition typeNamesAreNamed :: "Object list \<Rightarrow> bool" where
  "typeNamesAreNamed objs = (\<forall>obj\<in>set objs. denotesNamed obj)"

definition mkSink :: "sqlPackage \<Rightarrow> Program \<Rightarrow> Func \<Rightarrow> QueryMethod" where
  "mkSink sqlPkg ssa m =
     \<lparr>Func = m, SSA = FuncValue ssa m, ArgCount = int (length (Params (funcType m))),
      Param = fst (FuncHasQuery sqlPkg (funcType m))\<rparr>"

subsection \<open>Concrete inputs: a part of package database/sql\<close>

definition queryVar :: Var where
  "queryVar = \<lparr>varName = ''query'', varType = TString\<rparr>"

definition argsVar :: Var where
  "argsVar = \<lparr>varName = ''args'', varType = TOther ''[]interface{}''\<rparr>"

definition ctxVar :: Var where
  "ctxVar = \<lparr>varName = ''ctx'', varType = TNamed ''context.Context'' TInterface\<rparr>"

definition dbRecv :: Var where
  "dbRecv = \<lparr>varName = ''db'', varType = TOther ''*DB''\<rparr>"

definition dbClose :: Func where
  "dbClose = \<lparr>funcName = ''(*database/sql.DB).Close'', funcExported = True,
               funcType = \<lparr>Recv = Some dbRecv, Params = []\<rparr>\<rparr>"

definition dbQuery :: Func where
  "dbQuery = \<lparr>funcName = ''(*database/sql.DB).Query'', funcExported = True,
               funcType = \<lparr>Recv = Some dbRecv, Params = [queryVar, argsVar]\<rparr>\<rparr>"

definition dbQueryContext :: Func where
  "dbQueryContext = \<lparr>funcName = ''(*database/sql.DB).QueryContext'', funcExported = True,
               funcType = \<lparr>Recv = Some dbRecv, Params = [ctxVar, queryVar, argsVar]\<rparr>\<rparr>"

definition dbQueryDC :: Func where
  "dbQueryDC = \<lparr>funcName = ''(*database/sql.DB).queryDC'', funcExported = False,
               funcType = \<lparr>Recv = Some dbRecv, Params = [ctxVar, queryVar, argsVar]\<rparr>\<rparr>"

definition databaseSql :: Package where
  "databaseSql =
     \<lparr>Path = ''database/sql'',
      Scope = [TypeName ''DB'' True (Named [dbClose, dbQuery, dbQueryContext, dbQueryDC] []),
               OtherObject ''Open'' True,
               TypeName ''driverConn'' False (Named [dbQuery] [])]\<rparr>"

text \<open>The same type beside an exported alias, \<^verbatim>\<open>type Bytes = []byte\<close>.\<close>

definition aliasedSql :: Package where
  "aliasedSql =
     \<lparr>Path = ''database/sql'',
      Scope = [TypeName ''Bytes'' True (NotNamed (TOther ''[]byte'')),
               TypeName ''DB'' True (Named [dbClose, dbQuery, dbQueryContext, dbQueryDC] [])]\<rparr>"

text \<open>
  A part of package \<^verbatim>\<open>github.com/jackc/pgx/v4\<close>: the struct type \<^verbatim>\<open>Conn\<close> with its
  declared method \<^verbatim>\<open>Exec\<close>, and the interface type \<^verbatim>\<open>Tx\<close>, whose method \<^verbatim>\<open>Exec\<close> is a
  method of the underlying interface.
\<close>

definition pgxParams :: "Var list" where
  "pgxParams =
     [ctxVar, \<lparr>varName = ''sql'', varType = TString\<rparr>,
      \<lparr>varName = ''arguments'', varType = TOther ''[]interface{}''\<rparr>]"

definition pgxConnExec :: Func where
  "pgxConnExec =
     \<lparr>funcName = ''(*github.com/jackc/pgx/v4.Conn).Exec'', funcExported = True,
      funcType = \<lparr>Recv = Some \<lparr>varName = ''c'', varType = TOther ''*Conn''\<rparr>, Params = pgxParams\<rparr>\<rparr>"

definition pgxTxExec :: Func where
  "pgxTxExec =
     \<lparr>funcName = ''(github.com/jackc/pgx/v4.Tx).Exec'', funcExported = True,
      funcType = \<lparr>Recv = Some \<lparr>varName = [], varType = TNamed ''Tx'' TInterface\<rparr>,
                  Params = pgxParams\<rparr>\<rparr>"

definition pgxV4 :: Package where
  "pgxV4 =
     \<lparr>Path = ''github.com/jackc/pgx/v4'',
      Scope = [TypeName ''Conn'' True (Named [pgxConnExec] []),
               TypeName ''Tx'' True (Named [] [pgxTxExec])]\<rparr>"

definition pgxProgram :: Program where
  "pgxProgram =
     \<lparr>FuncValue = (\<lambda>m. \<lparr>fnName = funcName m, PkgPath = Some ''github.com/jackc/pgx/v4''\<rparr>)\<rparr>"

definition ssaProgram :: Program where
  "ssaProgram = \<lparr>FuncValue = (\<lambda>m. \<lparr>fnName = funcName m, PkgPath = Some ''database/sql''\<rparr>)\<rparr>"

definition boxedQuerySignature :: Signature where
  "boxedQuerySignature =
     \<lparr>Recv = None, Params = [\<lparr>varName = ''query'', varType = TInterface\<rparr>, argsVar]\<rparr>"

subsection \<open>The detector's exclusions, as the specification words them\<close>

text \<open>
  \<open>tracked\<close>: the path is one of the package identifiers of \<^verbatim>\<open>sqlPackages\<close>.
  \<open>noUsesBeyondWrapping\<close>: the wrapped value has no remaining uses beyond being wrapped,
  that is, no instruction other than the boxing one refers to it.
  \<open>boxedSafelyAsClaimed\<close>: the boxing exception with that reading.
  \<open>internalAsClaimed\<close>: the caller counts as internal plumbing of a tracked driver, by
  its package or by the file-suffix match of the ignored files.
\<close>

definition tracked :: "string \<Rightarrow> bool" where
  "tracked path = (path \<in> packageName ` set sqlPackages)"

definition noUsesBeyondWrapping :: "nat \<Rightarrow> Operand \<Rightarrow> bool" where
  "noUsesBeyondWrapping box x =
     (case Referrers x of None \<Rightarrow> True | Some uses \<Rightarrow> \<forall>u\<in>set uses. u = box)"

definition boxedSafelyAsClaimed :: "Value \<Rightarrow> bool" where
  "boxedSafelyAsClaimed v =
     (case v of
        MakeInterface box t x \<Rightarrow> IsInterface t \<and> (noUsesBeyondWrapping box x \<or> Type x \<noteq> TString)
      | _ \<Rightarrow> False)"

definition internalAsClaimed :: "Edge \<Rightarrow> CallInstruction \<Rightarrow> bool" where
  "internalAsClaimed e site =
     ((case PkgPath (Caller e) of None \<Rightarrow> False | Some path \<Rightarrow> tracked path)
      \<or> pathIsIgnored (Filename (Pos site)))"

subsection \<open>Concrete inputs: call graphs\<close>

text \<open>
  A program \<^verbatim>\<open>example.com/app\<close> that calls \<^verbatim>\<open>(*sql.DB).Query\<close> once with a concatenated
  string and once with a literal; \<^verbatim>\<open>Query\<close> itself calls \<^verbatim>\<open>QueryContext\<close>. The graphs
  have no synthetic nodes, so deleting them changes nothing.
\<close>

definition noSyntheticNodes :: "Graph \<Rightarrow> Graph" where
  "noSyntheticNodes cg = cg"

definition fnQuery :: Function where
  "fnQuery = \<lparr>fnName = ''(*database/sql.DB).Query'', PkgPath = Some ''database/sql''\<rparr>"

definition fnQueryContext :: Function where
  "fnQueryContext = \<lparr>fnName = ''(*database/sql.DB).QueryContext'', PkgPath = Some ''database/sql''\<rparr>"

definition sinkQuery :: QueryMethod where
  "sinkQuery = \<lparr>Func = dbQuery, SSA = fnQuery, ArgCount = 2, Param = 0\<rparr>"

definition sinkQueryContext :: QueryMethod where
  "sinkQueryContext = \<lparr>Func = dbQueryContext, SSA = fnQueryContext, ArgCount = 3, Param = 1\<rparr>"

definition handler :: Function where
  "handler = \<lparr>fnName = ''example.com/app.handler'', PkgPath = Some ''example.com/app''\<rparr>"

definition receiver :: Value where
  "receiver = OtherValue ''db'' (TOther ''*database/sql.DB'')"

definition literalQuery :: Value where
  "literalQuery = Const TString ''SELECT name FROM users''"

definition builtQuery :: Value where
  "builtQuery = OtherValue ''\"SELECT name FROM users WHERE id = \" + id'' TString"

definition noArgs :: Value where
  "noArgs = Const (TOther ''[]interface{}'') ''nil''"

definition unsafeSite :: CallInstruction where
  "unsafeSite = \<lparr>Pos = findingAt appFile 2, Parent = handler, Args = [receiver, builtQuery, noArgs]\<rparr>"

definition safeSite :: CallInstruction where
  "safeSite = \<lparr>Pos = findingAt appFile 5, Parent = handler, Args = [receiver, literalQuery, noArgs]\<rparr>"

definition wrapperSite :: CallInstruction where
  "wrapperSite =
     \<lparr>Pos = findingAt ''/usr/local/go/src/database/sql/sql.go'' 1730, Parent = fnQuery,
      Args = [receiver, OtherValue ''context.Background()'' (TNamed ''context.Context'' TInterface),
              OtherValue ''query'' TString, OtherValue ''args'' (TOther ''[]interface{}'')]\<rparr>"

definition shortSite :: CallInstruction where
  "shortSite = \<lparr>Pos = findingAt appFile 9, Parent = handler, Args = [builtQuery]\<rparr>"

definition edgeFrom :: "CallInstruction \<Rightarrow> Edge" where
  "edgeFrom site = \<lparr>Caller = Parent site, Site = Some site\<rparr>"

definition appGraph :: Graph where
  "appGraph =
     [fnQuery \<mapsto> \<lparr>nodeFunc = fnQuery, In = [edgeFrom unsafeSite, edgeFrom safeSite]\<rparr>,
      fnQueryContext \<mapsto> \<lparr>nodeFunc = fnQueryContext, In = [edgeFrom wrapperSite]\<rparr>]"

definition brokenGraph :: Graph where
  "brokenGraph = [fnQuery \<mapsto> \<lparr>nodeFunc = fnQuery, In = [edgeFrom safeSite, edgeFrom shortSite]\<rparr>]"


text \<open>
  An interface method call that the pointer analysis resolves to two sinks whose sensitive
  parameter stands at different positions: one call instruction, two edges.
\<close>

definition fnTaggedDB :: Function where
  "fnTaggedDB = \<lparr>fnName = ''(*github.com/jmoiron/sqlx.DB).Tagged'', PkgPath = Some ''github.com/jmoiron/sqlx''\<rparr>"

definition fnTaggedTx :: Function where
  "fnTaggedTx = \<lparr>fnName = ''(*github.com/jmoiron/sqlx.Tx).Tagged'', PkgPath = Some ''github.com/jmoiron/sqlx''\<rparr>"

definition tagVar :: Var where
  "tagVar = \<lparr>varName = ''tag'', varType = TString\<rparr>"

definition sinkTaggedDB :: QueryMethod where
  "sinkTaggedDB =
     \<lparr>Func = \<lparr>funcName = ''(*github.com/jmoiron/sqlx.DB).Tagged'', funcExported = True,
               funcType = \<lparr>Recv = Some dbRecv, Params = [queryVar, tagVar]\<rparr>\<rparr>,
      SSA = fnTaggedDB, ArgCount = 2, Param = 0\<rparr>"

definition sinkTaggedTx :: QueryMethod where
  "sinkTaggedTx =
     \<lparr>Func = \<lparr>funcName = ''(*github.com/jmoiron/sqlx.Tx).Tagged'', funcExported = True,
               funcType = \<lparr>Recv = Some \<lparr>varName = ''tx'', varType = TOther ''*Tx''\<rparr>,
                           Params = [tagVar, queryVar]\<rparr>\<rparr>,
      SSA = fnTaggedTx, ArgCount = 2, Param = 1\<rparr>"

definition dispatchSite :: CallInstruction where
  "dispatchSite =
     \<lparr>Pos = findingAt appFile 12, Parent = handler,
      Args = [literalQuery, OtherValue ''requestTag'' TString]\<rparr>"

definition dispatchGraph :: Graph where
  "dispatchGraph =
     [fnTaggedDB \<mapsto> \<lparr>nodeFunc = fnTaggedDB, In = [edgeFrom dispatchSite]\<rparr>,
      fnTaggedTx \<mapsto> \<lparr>nodeFunc = fnTaggedTx, In = [edgeFrom dispatchSite]\<rparr>]"

text \<open>
  A sink with a parameter \<^verbatim>\<open>query interface{}\<close>. \<open>boxedLiteral\<close> boxes a constant
  (\<^verbatim>\<open>Referrers()\<close> of a constant is nil); \<open>boxedParameter\<close> boxes a string parameter of
  the calling function whose only use is the boxing instruction, number 7.
\<close>

definition fnWhere :: Function where
  "fnWhere = \<lparr>fnName = ''(*github.com/jinzhu/gorm.DB).Where'', PkgPath = Some ''github.com/jinzhu/gorm''\<rparr>"

definition sinkWhere :: QueryMethod where
  "sinkWhere =
     \<lparr>Func = \<lparr>funcName = ''(*github.com/jinzhu/gorm.DB).Where'', funcExported = True,
               funcType = \<lparr>Recv = Some dbRecv,
                           Params = [\<lparr>varName = ''query'', varType = TInterface\<rparr>, argsVar]\<rparr>\<rparr>,
      SSA = fnWhere, ArgCount = 2, Param = 0\<rparr>"

definition boxedLiteral :: Value where
  "boxedLiteral = MakeInterface 3 TInterface \<lparr>Referrers = None, Type = TString\<rparr>"

definition boxedParameter :: Value where
  "boxedParameter = MakeInterface 7 TInterface \<lparr>Referrers = Some [7], Type = TString\<rparr>"

definition boxedLiteralSite :: CallInstruction where
  "boxedLiteralSite =
     \<lparr>Pos = findingAt appFile 20, Parent = handler, Args = [receiver, boxedLiteral, noArgs]\<rparr>"

definition boxedParameterSite :: CallInstruction where
  "boxedParameterSite =
     \<lparr>Pos = findingAt appFile 21, Parent = handler, Args = [receiver, boxedParameter, noArgs]\<rparr>"

definition gormGraph :: Graph where
  "gormGraph =
     [fnWhere \<mapsto> \<lparr>nodeFunc = fnWhere, In = [edgeFrom boxedLiteralSite, edgeFrom boxedParameterSite]\<rparr>]"

text \<open>
  The pass-through wrapper of the connection pool, in package
  \<^verbatim>\<open>github.com/jackc/pgx/v4/pgxpool\<close>, file \<^verbatim>\<open>pgxpool/conn.go\<close>, and a pass-through method
  of an unexported type inside the tracked package \<^verbatim>\<open>github.com/jackc/pgx/v4\<close> itself.
\<close>

definition fnExec :: Function where
  "fnExec = \<lparr>fnName = ''(*github.com/jackc/pgx/v4.Conn).Exec'', PkgPath = Some ''github.com/jackc/pgx/v4''\<rparr>"

definition sinkExec :: QueryMethod where
  "sinkExec =
     \<lparr>Func = \<lparr>funcName = ''(*github.com/jackc/pgx/v4.Conn).Exec'', funcExported = True,
               funcType = \<lparr>Recv = Some \<lparr>varName = ''c'', varType = TOther ''*Conn''\<rparr>,
                           Params = [ctxVar, \<lparr>varName = ''sql'', varType = TString\<rparr>,
                                     \<lparr>varName = ''arguments'', varType = TOther ''[]interface{}''\<rparr>]\<rparr>\<rparr>,
      SSA = fnExec, ArgCount = 3, Param = 1\<rparr>"

definition poolFile :: string where
  "poolFile = ''/go/src/app/vendor/github.com/jackc/pgx/v4/pgxpool/conn.go''"

definition poolSource :: string where
  "poolSource = ''func (c *Conn) Exec(ctx context.Context, sql string, arguments ...interface{}) (pgconn.CommandTag, error) {''
     @ [CHR 0x0A] @ ''return c.Conn().Exec(ctx, sql, arguments...)'' @ [CHR 0x0A] @ ''}''"

definition passThroughArgs :: "Value list" where
  "passThroughArgs =
     [OtherValue ''conn'' (TOther ''*github.com/jackc/pgx/v4.Conn''),
      OtherValue ''ctx'' (TNamed ''context.Context'' TInterface),
      OtherValue ''sql'' TString,
      OtherValue ''arguments'' (TOther ''[]interface{}'')]"

definition poolSite :: CallInstruction where
  "poolSite =
     \<lparr>Pos = findingAt poolFile 2,
      Parent = \<lparr>fnName = ''(*github.com/jackc/pgx/v4/pgxpool.Conn).Exec'',
                PkgPath = Some ''github.com/jackc/pgx/v4/pgxpool''\<rparr>,
      Args = passThroughArgs\<rparr>"

definition txSite :: CallInstruction where
  "txSite =
     \<lparr>Pos = findingAt ''/go/src/app/vendor/github.com/jackc/pgx/v4/tx.go'' 290,
      Parent = \<lparr>fnName = ''(*github.com/jackc/pgx/v4.dbTx).Exec'',
                PkgPath = Some ''github.com/jackc/pgx/v4''\<rparr>,
      Args = passThroughArgs\<rparr>"

definition pgxGraph :: Graph where
  "pgxGraph = [fnExec \<mapsto> \<lparr>nodeFunc = fnExec, In = [edgeFrom txSite, edgeFrom poolSite]\<rparr>]"

section \<open>Properties of the suppression resolver\<close>

lemmas suppression_eval = CheckIssues_def checkLine_def go_index_def BeginsWithComment_def
  HasIgnoreComment_def TrimSpace_def HasPrefix_def HasSuffix_def leadingSpace_def
  trailingSpace_def spaceRunes_def IgnoreComment_def ignoredFiles_def


lemma groupByFile_apply:
  "groupByFile files lines f =
     (if filter (\<lambda>p. Filename p = f) lines = [] then files f
      else Some ((case files f of None \<Rightarrow> [] | Some ps \<Rightarrow> ps) @ filter (\<lambda>p. Filename p = f) lines))"
  by (induction lines arbitrary: files) (auto split: option.splits)

lemma checkLine_statement: "checkLine ig fl p = Inr i \<Longrightarrow> statement i = p"
  by (auto simp: checkLine_def Let_def split: if_splits sum.splits bool.splits)

lemma checkLine_error: "checkLine ig fl p = Inl e \<Longrightarrow> e = IndexOutOfRange"
  by (auto simp: checkLine_def Let_def go_index_def split: if_splits sum.splits bool.splits)

lemma linesLoop_Inr:
  "linesLoop ig fl acc ps = Inr out \<longleftrightarrow>
     (\<exists>is. list_all2 (\<lambda>p i. checkLine ig fl p = Inr i) ps is \<and> out = acc @ is)"
proof (induction ps arbitrary: acc)
  case Nil
  then show ?case by auto
next
  case (Cons p ps)
  show ?case
  proof (cases "checkLine ig fl p")
    case (Inl e)
    then show ?thesis by (auto simp: list_all2_Cons1)
  next
    case (Inr i)
    then show ?thesis by (auto simp: Cons.IH list_all2_Cons1)
  qed
qed

lemma linesLoop_Inl:
  "linesLoop ig fl acc ps = Inl e \<Longrightarrow> \<exists>p\<in>set ps. checkLine ig fl p = Inl e"
  by (induction ps arbitrary: acc) (auto split: sum.splits)

lemma linesLoop_total:
  "(\<forall>p\<in>set ps. \<exists>i. checkLine ig fl p = Inr i) \<Longrightarrow> \<exists>out. linesLoop ig fl acc ps = Inr out"
  by (induction ps arbitrary: acc) (auto split: sum.splits)



lemma list_all2_Inr_set:
  "list_all2 (\<lambda>p i. g p = Inr i) ps is \<Longrightarrow> i \<in> set is \<longleftrightarrow> (\<exists>p\<in>set ps. g p = Inr i)"
  by (induction rule: list_all2_induct) auto

lemma linesLoop_members:
  "linesLoop ig fl acc ps = Inr out \<Longrightarrow>
     i \<in> set out \<longleftrightarrow> i \<in> set acc \<or> (\<exists>p\<in>set ps. checkLine ig fl p = Inr i)"
  by (auto simp: linesLoop_Inr list_all2_Inr_set)

lemma linesLoop_all_ok:
  "linesLoop ig fl acc ps = Inr out \<Longrightarrow> p \<in> set ps \<Longrightarrow> \<exists>i. checkLine ig fl p = Inr i"
  by (induction ps arbitrary: acc) (auto split: sum.splits)

lemma filesLoop_members:
  "filesLoop rf files acc order = Inr out \<Longrightarrow>
     i \<in> set out \<longleftrightarrow>
       i \<in> set acc \<or>
       (\<exists>f\<in>set order. \<exists>ps data p. files f = Some ps \<and> rf f = Some data \<and> p \<in> set ps \<and>
          checkLine (fileIsIgnoredLoop f ignoredFiles) (Split data) p = Inr i)"
proof (induction order arbitrary: acc)
  case Nil
  then show ?case by simp
next
  case (Cons f order)
  show ?case
  proof (cases "files f")
    case None
    with Cons show ?thesis by auto
  next
    case (Some ps)
    with Cons.prems obtain data mid where d: "rf f = Some data"
      and m: "linesLoop (fileIsIgnoredLoop f ignoredFiles) (Split data) acc (sort_key Line ps) = Inr mid"
      and r: "filesLoop rf files mid order = Inr out"
      by (auto simp: Let_def split: option.splits sum.splits)
    from linesLoop_members [OF m]
    have mid: "\<And>j. j \<in> set mid \<longleftrightarrow> j \<in> set acc \<or>
         (\<exists>p\<in>set ps. checkLine (fileIsIgnoredLoop f ignoredFiles) (Split data) p = Inr j)"
      by simp
    show ?thesis
      unfolding Cons.IH [OF r] mid using Some d by auto
  qed
qed

lemma filesLoop_all_ok:
  "filesLoop rf files acc order = Inr out \<Longrightarrow> f \<in> set order \<Longrightarrow> files f = Some ps \<Longrightarrow>
     \<exists>data. rf f = Some data \<and>
       (\<forall>p\<in>set ps. \<exists>i. checkLine (fileIsIgnoredLoop f ignoredFiles) (Split data) p = Inr i)"
proof (induction order arbitrary: acc)
  case Nil
  then show ?case by simp
next
  case (Cons g order)
  show ?case
  proof (cases "files g")
    case None
    with Cons show ?thesis by auto
  next
    case (Some qs)
    with Cons.prems(1) obtain data mid where d: "rf g = Some data"
      and m: "linesLoop (fileIsIgnoredLoop g ignoredFiles) (Split data) acc (sort_key Line qs) = Inr mid"
      and r: "filesLoop rf files mid order = Inr out"
      by (auto simp: Let_def split: option.splits sum.splits)
    show ?thesis
    proof (cases "f = g")
      case True
      with Some Cons.prems(3) have "qs = ps" by simp
      with linesLoop_all_ok [OF m] d True show ?thesis by auto
    next
      case False
      with Cons.prems(2) have "f \<in> set order" by simp
      from Cons.IH [OF r this Cons.prems(3)] show ?thesis .
    qed
  qed
qed

lemma filesLoop_total:
  "(\<forall>f\<in>set order. \<forall>ps. files f = Some ps \<longrightarrow>
      (\<exists>data. rf f = Some data \<and>
         (\<forall>p\<in>set ps. \<exists>i. checkLine (fileIsIgnoredLoop f ignoredFiles) (Split data) p = Inr i)))
   \<Longrightarrow> \<exists>out. filesLoop rf files acc order = Inr out"
proof (induction order arbitrary: acc)
  case Nil
  then show ?case by simp
next
  case (Cons f order)
  show ?case
  proof (cases "files f")
    case None
    with Cons show ?thesis by auto
  next
    case (Some ps)
    with Cons.prems obtain data where d: "rf f = Some data"
      and ok: "\<forall>p\<in>set ps. \<exists>i. checkLine (fileIsIgnoredLoop f ignoredFiles) (Split data) p = Inr i"
      by auto
    from ok have "\<forall>p\<in>set (sort_key Line ps). \<exists>i. checkLine (fileIsIgnoredLoop f ignoredFiles) (Split data) p = Inr i"
      by simp
    from linesLoop_total [OF this] obtain mid
      where m: "linesLoop (fileIsIgnoredLoop f ignoredFiles) (Split data) acc (sort_key Line ps) = Inr mid"
      by blast
    from Cons.prems have "\<forall>f\<in>set order. \<forall>ps. files f = Some ps \<longrightarrow>
      (\<exists>data. rf f = Some data \<and>
         (\<forall>p\<in>set ps. \<exists>i. checkLine (fileIsIgnoredLoop f ignoredFiles) (Split data) p = Inr i))"
      by simp
    from Cons.IH [OF this] obtain out where "filesLoop rf files mid order = Inr out" by blast
    with Some d m show ?thesis by (simp add: Let_def)
  qed
qed

lemma filesLoop_error:
  "filesLoop rf files acc order = Inl e \<Longrightarrow>
     e = IndexOutOfRange \<or> (\<exists>f\<in>set order. e = FileReadError f \<and> rf f = None \<and> files f \<noteq> None)"
proof (induction order arbitrary: acc)
  case Nil
  then show ?case by simp
next
  case (Cons f order)
  then show ?case
    by (auto simp: Let_def split: option.splits sum.splits dest!: linesLoop_Inl checkLine_error)
qed

lemma fileIsIgnoredLoop_iff: "fileIsIgnoredLoop file fs \<longleftrightarrow> (\<exists>f\<in>set fs. HasSuffix file f)"
  by (induction fs) auto

lemma checkLine_Inr_iff:
  "(\<exists>i. checkLine ig fl p = Inr i) \<longleftrightarrow> precedingLineBeginsWithMarker fl p \<or> withinFile fl p"
  by (auto simp: checkLine_def Let_def go_index_def precedingLineBeginsWithMarker_def lineAt_def
      withinFile_def BeginsWithComment_def nat_diff_distrib
      split: if_splits sum.splits bool.splits)

lemma checkLine_ignored:
  "checkLine ig fl p = Inr i \<Longrightarrow>
     ignored i \<longleftrightarrow> precedingLineBeginsWithMarker fl p \<or> ownLineEndsWithMarker fl p \<or> ig"
  by (auto simp: checkLine_def Let_def go_index_def precedingLineBeginsWithMarker_def lineAt_def
      ownLineEndsWithMarker_def BeginsWithComment_def HasIgnoreComment_def
      split: if_splits sum.splits bool.splits)

lemma checkLine_preceding:
  "precedingLineBeginsWithMarker fl p \<Longrightarrow> checkLine ig fl p = Inr \<lparr>statement = p, ignored = True\<rparr>"
  by (auto simp: checkLine_def Let_def go_index_def precedingLineBeginsWithMarker_def lineAt_def
      BeginsWithComment_def
      split: if_splits sum.splits bool.splits option.splits)

lemma groupByFile_keys:
  "groupByFile Map.empty lines f =
     (if f \<in> Filename ` set lines then Some (filter (\<lambda>p. Filename p = f) lines) else None)"
  by (auto simp: groupByFile_apply filter_empty_conv)

lemma CheckIssues_members:
  assumes "CheckIssues order rf lines = Inr issues"
  shows "i \<in> set issues \<longleftrightarrow>
     (\<exists>p data. p \<in> set lines \<and> Filename p \<in> set order \<and> rf (Filename p) = Some data \<and>
        checkLine (fileIsIgnoredLoop (Filename p) ignoredFiles) (Split data) p = Inr i)"
  using filesLoop_members [OF assms [unfolded CheckIssues_def], of i]
  by (auto simp: groupByFile_keys split: if_splits)

lemma CheckIssues_all_ok:
  assumes "CheckIssues order rf lines = Inr issues" "p \<in> set lines" "Filename p \<in> set order"
  shows "\<exists>data i. rf (Filename p) = Some data \<and>
     checkLine (fileIsIgnoredLoop (Filename p) ignoredFiles) (Split data) p = Inr i"
proof -
  let ?ps = "filter (\<lambda>q. Filename q = Filename p) lines"
  from assms(2) have "p \<in> set ?ps" by simp
  with assms(2) have "groupByFile Map.empty lines (Filename p) = Some ?ps"
    by (auto simp: groupByFile_keys)
  from filesLoop_all_ok [OF assms(1) [unfolded CheckIssues_def] assms(3) this] \<open>p \<in> set ?ps\<close>
  show ?thesis by blast
qed


text \<open>
  Claim C7, with rule (i) as the code has it. When \<^verbatim>\<open>CheckIssues\<close> returns its list, every
  issue in it is one of the findings, and it is marked ignored if and only if (i) the line
  before the finding begins, after trimming white space, with the ignore marker (text may
  follow the marker), or (ii) the flagged line itself ends, after trimming, with the
  marker, or the path of the file ends with an entry of \<^verbatim>\<open>ignoredFiles\<close>. Every finding,
  suppressed or not, is in the returned list. Rule (i) comes first: when it holds the loop
  body answers ignored without reading the flagged line and without the whole-file flag.
\<close>

theorem CheckIssues_suppression:
  assumes "CheckIssues order readFile lines = Inr issues" and "keyOrder order lines"
  shows "(\<forall>i\<in>set issues. statement i \<in> set lines \<and>
            (\<exists>data. readFile (Filename (statement i)) = Some data \<and>
               (ignored i \<longleftrightarrow> suppressed (Split data) (statement i))))
       \<and> (\<forall>p\<in>set lines. \<exists>data. readFile (Filename p) = Some data \<and>
             \<lparr>statement = p, ignored = suppressed (Split data) p\<rparr> \<in> set issues)
       \<and> (\<forall>fileIsIgnored fileLines p. precedingLineBeginsWithMarker fileLines p \<longrightarrow>
             checkLine fileIsIgnored fileLines p = Inr \<lparr>statement = p, ignored = True\<rparr>)"
proof -
  have one: "statement i \<in> set lines \<and>
            (\<exists>data. readFile (Filename (statement i)) = Some data \<and>
               (ignored i \<longleftrightarrow> suppressed (Split data) (statement i)))"
    if "i \<in> set issues" for i
  proof -
  from that CheckIssues_members [OF assms(1)] obtain p data where
    p: "p \<in> set lines" "readFile (Filename p) = Some data"
    and c: "checkLine (fileIsIgnoredLoop (Filename p) ignoredFiles) (Split data) p = Inr i"
    by blast
  from c have s: "statement i = p" by (rule checkLine_statement)
  from checkLine_ignored [OF c]
  have "ignored i \<longleftrightarrow> suppressed (Split data) p"
    by (simp add: suppressed_def pathIsIgnored_def fileIsIgnoredLoop_iff)
  with p s show ?thesis by auto
  qed
  have two: "\<exists>data. readFile (Filename p) = Some data \<and>
             \<lparr>statement = p, ignored = suppressed (Split data) p\<rparr> \<in> set issues"
    if p: "p \<in> set lines" for p
  proof -
  from p assms(2) have o: "Filename p \<in> set order" by (auto simp: keyOrder_def)
  from CheckIssues_all_ok [OF assms(1) p o] obtain data i where
    d: "readFile (Filename p) = Some data"
    and c: "checkLine (fileIsIgnoredLoop (Filename p) ignoredFiles) (Split data) p = Inr i"
    by blast
  from c have s: "statement i = p" by (rule checkLine_statement)
  from checkLine_ignored [OF c]
  have "ignored i \<longleftrightarrow> suppressed (Split data) p"
    by (simp add: suppressed_def pathIsIgnored_def fileIsIgnoredLoop_iff)
  with s have "i = \<lparr>statement = p, ignored = suppressed (Split data) p\<rparr>" by simp
  moreover from CheckIssues_members [OF assms(1), of i] p o d c have "i \<in> set issues" by blast
  ultimately show ?thesis using d by auto
  qed
  from one two checkLine_preceding show ?thesis by blast
qed

lemma commentedSource_run:
  "CheckIssues [appFile] [appFile \<mapsto> commentedSource] [findingAt appFile 2]
     = Inr [\<lparr>statement = findingAt appFile 2, ignored = True\<rparr>]"
  by (simp add: suppression_eval appFile_def commentedSource_def findingAt_def)

text \<open>
  Claim C7 as it is worded fails: a line before the finding that holds the marker and then
  more text (\<^verbatim>\<open>//nolint:safesql reviewed\<close>) does not consist exactly of the marker, the
  flagged line carries no marker and the file is not an ignored one, yet the finding is
  marked ignored.
\<close>

theorem CheckIssues_suppression_counterexample:
  "CheckIssues [appFile] [appFile \<mapsto> commentedSource] [findingAt appFile 2]
     = Inr [\<lparr>statement = findingAt appFile 2, ignored = True\<rparr>]
   \<and> \<not> suppressedAsClaimed (Split commentedSource) (findingAt appFile 2)"
  by (simp add: suppression_eval appFile_def commentedSource_def findingAt_def
      suppressedAsClaimed_def precedingLineIsMarker_def ownLineEndsWithMarker_def
      pathIsIgnored_def lineAt_def)

theorem CheckIssues_suppression_witness:
  "CheckIssues [appFile] [appFile \<mapsto> commentedSource] [findingAt appFile 2]
     = Inr [\<lparr>statement = findingAt appFile 2, ignored = True\<rparr>]
   \<and> keyOrder [appFile] [findingAt appFile 2]
   \<and> suppressed (Split commentedSource) (findingAt appFile 2)"
proof -
  have run: "CheckIssues [appFile] [appFile \<mapsto> commentedSource] [findingAt appFile 2]
     = Inr [\<lparr>statement = findingAt appFile 2, ignored = True\<rparr>]"
    by (rule commentedSource_run)
  have ord: "keyOrder [appFile] [findingAt appFile 2]"
    by (simp add: keyOrder_def findingAt_def)
  from CheckIssues_suppression [OF run ord] run ord show ?thesis
    by (simp add: findingAt_def)
qed

text \<open>
  Claim C9. The ignored bit of a finding depends only on the two source lines \<open>Line - 1\<close>
  and \<open>Line\<close> of its file (and on the path, through the whole-file list): take two runs
  of \<^verbatim>\<open>CheckIssues\<close> on the same findings over two file systems, in any two visiting
  orders, both returning a list. If the two contents of the finding's file agree on those
  two lines (the same text, or the line missing in both), the finding gets the same
  ignored value in both runs, whatever else differs in that file or in any other.
\<close>

theorem CheckIssues_two_lines_only:
  assumes run1: "CheckIssues order1 readFile1 lines = Inr issues1"
    and run2: "CheckIssues order2 readFile2 lines = Inr issues2"
    and ord1: "keyOrder order1 lines" and ord2: "keyOrder order2 lines"
    and p: "p \<in> set lines"
    and d1: "readFile1 (Filename p) = Some data1" and d2: "readFile2 (Filename p) = Some data2"
    and before: "lineAt (Split data1) (Line p - 1) = lineAt (Split data2) (Line p - 1)"
    and own: "lineAt (Split data1) (Line p) = lineAt (Split data2) (Line p)"
  shows "(\<exists>b. \<lparr>statement = p, ignored = b\<rparr> \<in> set issues1)
       \<and> (\<forall>b. \<lparr>statement = p, ignored = b\<rparr> \<in> set issues1 \<longleftrightarrow>
                \<lparr>statement = p, ignored = b\<rparr> \<in> set issues2)"
proof -
  let ?ig = "fileIsIgnoredLoop (Filename p) ignoredFiles"
  have same: "suppressed (Split data1) p = suppressed (Split data2) p"
    using before own
    by (simp add: suppressed_def precedingLineBeginsWithMarker_def ownLineEndsWithMarker_def)
  have mem: "\<lparr>statement = p, ignored = b\<rparr> \<in> set issues \<longleftrightarrow> b = suppressed (Split data) p"
    if run: "CheckIssues order readFile lines = Inr issues" and ord: "keyOrder order lines"
      and d: "readFile (Filename p) = Some data" for order readFile issues data b
  proof -
    from p ord have o: "Filename p \<in> set order" by (auto simp: keyOrder_def)
    from CheckIssues_all_ok [OF run p o] d obtain i where
      c: "checkLine ?ig (Split data) p = Inr i" by auto
    from checkLine_ignored [OF c] checkLine_statement [OF c]
    have i: "i = \<lparr>statement = p, ignored = suppressed (Split data) p\<rparr>"
      by (simp add: suppressed_def pathIsIgnored_def fileIsIgnoredLoop_iff)
    show ?thesis
    proof
      assume "\<lparr>statement = p, ignored = b\<rparr> \<in> set issues"
      with CheckIssues_members [OF run] obtain q data' where
        q: "readFile (Filename q) = Some data'"
        "checkLine (fileIsIgnoredLoop (Filename q) ignoredFiles) (Split data') q
           = Inr \<lparr>statement = p, ignored = b\<rparr>"
        by blast
      from checkLine_statement [OF q(2)] have "q = p" by simp
      with q d c i show "b = suppressed (Split data) p" by simp
    next
      assume "b = suppressed (Split data) p"
      with CheckIssues_members [OF run, of i] p o d c i
      show "\<lparr>statement = p, ignored = b\<rparr> \<in> set issues" by blast
    qed
  qed
  from mem [OF run1 ord1 d1] mem [OF run2 ord2 d2] same show ?thesis by auto
qed

theorem CheckIssues_two_lines_only_witness:
  "CheckIssues [appFile] [appFile \<mapsto> commentedSource] [findingAt appFile 2]
     = Inr [\<lparr>statement = findingAt appFile 2, ignored = True\<rparr>]
   \<and> CheckIssues [appFile] [appFile \<mapsto> commentedSource @ [CHR 0x0A] @ shortSource]
       [findingAt appFile 2]
     = Inr [\<lparr>statement = findingAt appFile 2, ignored = True\<rparr>]
   \<and> keyOrder [appFile] [findingAt appFile 2]
   \<and> lineAt (Split commentedSource) (Line (findingAt appFile 2) - 1)
       = lineAt (Split (commentedSource @ [CHR 0x0A] @ shortSource)) (Line (findingAt appFile 2) - 1)
   \<and> lineAt (Split commentedSource) (Line (findingAt appFile 2))
       = lineAt (Split (commentedSource @ [CHR 0x0A] @ shortSource)) (Line (findingAt appFile 2))
   \<and> (\<lparr>statement = findingAt appFile 2, ignored = True\<rparr>
         \<in> set [\<lparr>statement = findingAt appFile 2, ignored = True\<rparr>])"
proof -
  let ?p = "findingAt appFile 2"
  let ?longer = "commentedSource @ [CHR 0x0A] @ shortSource"
  have run1: "CheckIssues [appFile] [appFile \<mapsto> commentedSource] [?p]
     = Inr [\<lparr>statement = ?p, ignored = True\<rparr>]"
    by (rule commentedSource_run)
  have run2: "CheckIssues [appFile] [appFile \<mapsto> ?longer] [?p]
     = Inr [\<lparr>statement = ?p, ignored = True\<rparr>]"
    by (simp add: suppression_eval appFile_def commentedSource_def shortSource_def findingAt_def)
  have ord: "keyOrder [appFile] [?p]"
    by (simp add: keyOrder_def findingAt_def)
  have mem: "?p \<in> set [?p]" by simp
  have d1: "[appFile \<mapsto> commentedSource] (Filename ?p) = Some commentedSource"
    by (simp add: findingAt_def)
  have d2: "[appFile \<mapsto> ?longer] (Filename ?p) = Some ?longer"
    by (simp add: findingAt_def)
  have before: "lineAt (Split commentedSource) (Line ?p - 1) = lineAt (Split ?longer) (Line ?p - 1)"
    by (simp add: lineAt_def commentedSource_def shortSource_def findingAt_def)
  have own: "lineAt (Split commentedSource) (Line ?p) = lineAt (Split ?longer) (Line ?p)"
    by (simp add: lineAt_def commentedSource_def shortSource_def findingAt_def)
  from CheckIssues_two_lines_only [OF run1 run2 ord ord mem d1 d2 before own]
    run1 run2 ord before own
  show ?thesis by simp
qed


lemma checkLine_first_line:
  "checkLine ig fl p = Inr i \<Longrightarrow> Line p = 1 \<Longrightarrow> ignored i \<longleftrightarrow> HasIgnoreComment (fl ! 0) \<or> ig"
  by (auto simp: checkLine_def Let_def go_index_def split: if_splits sum.splits bool.splits)

text \<open>
  Claim C10, with the precondition as a sufficient one. Let every file of a finding be
  readable. \<^verbatim>\<open>CheckIssues\<close> returns its list exactly when every finding either has a line
  before it that begins with the ignore marker (then the flagged line is never indexed)
  or has a line number between 1 and the number of pieces of the split content; so it
  returns whenever every line number is within its file; and when it does not return, it
  is the index panic. The lookup of the line before is guarded against a negative index:
  a finding on line 1 is classified from its own line and the whole-file list only.
\<close>

theorem CheckIssues_line_bounds:
  assumes ord: "keyOrder order lines"
    and readable: "\<forall>p\<in>set lines. readFile (Filename p) \<noteq> None"
  shows "((\<exists>issues. CheckIssues order readFile lines = Inr issues) \<longleftrightarrow>
            (\<forall>p\<in>set lines. \<forall>data. readFile (Filename p) = Some data \<longrightarrow>
               precedingLineBeginsWithMarker (Split data) p \<or> withinFile (Split data) p))
       \<and> ((\<forall>p\<in>set lines. \<forall>data. readFile (Filename p) = Some data \<longrightarrow> withinFile (Split data) p)
            \<longrightarrow> (\<exists>issues. CheckIssues order readFile lines = Inr issues))
       \<and> ((\<forall>issues. CheckIssues order readFile lines \<noteq> Inr issues)
            \<longrightarrow> CheckIssues order readFile lines = Inl IndexOutOfRange)
       \<and> (\<forall>issues. CheckIssues order readFile lines = Inr issues \<longrightarrow>
            (\<forall>i\<in>set issues. Line (statement i) = 1 \<longrightarrow>
               (\<exists>data. readFile (Filename (statement i)) = Some data \<and>
                  (ignored i \<longleftrightarrow>
                     HasIgnoreComment (Split data ! 0) \<or> pathIsIgnored (Filename (statement i))))))"
proof -
  let ?safe = "\<forall>p\<in>set lines. \<forall>data. readFile (Filename p) = Some data \<longrightarrow>
               precedingLineBeginsWithMarker (Split data) p \<or> withinFile (Split data) p"
  have returns: "\<exists>issues. CheckIssues order readFile lines = Inr issues" if safe: ?safe
  proof -
    have "\<exists>data. readFile f = Some data \<and>
         (\<forall>p\<in>set ps. \<exists>i. checkLine (fileIsIgnoredLoop f ignoredFiles) (Split data) p = Inr i)"
      if f: "f \<in> set order" and ps: "groupByFile Map.empty lines f = Some ps" for f ps
    proof -
      from ps have eq: "ps = filter (\<lambda>p. Filename p = f) lines" and key: "f \<in> Filename ` set lines"
        by (auto simp: groupByFile_keys split: if_splits)
      from key readable obtain data where d: "readFile f = Some data" by auto
      have "\<exists>i. checkLine (fileIsIgnoredLoop f ignoredFiles) (Split data) p = Inr i"
        if "p \<in> set ps" for p
      proof -
        from that eq have "p \<in> set lines" "Filename p = f" by auto
        with safe d have "precedingLineBeginsWithMarker (Split data) p \<or> withinFile (Split data) p"
          by auto
        then show ?thesis by (simp add: checkLine_Inr_iff)
      qed
      with d show ?thesis by auto
    qed
    then show ?thesis
      unfolding CheckIssues_def by (intro filesLoop_total) blast
  qed
  have safe: ?safe if run: "CheckIssues order readFile lines = Inr issues" for issues
  proof (intro ballI allI impI)
    fix p data assume p: "p \<in> set lines" and d: "readFile (Filename p) = Some data"
    from p ord have o: "Filename p \<in> set order" by (auto simp: keyOrder_def)
    from CheckIssues_all_ok [OF run p o] d
    have "\<exists>i. checkLine (fileIsIgnoredLoop (Filename p) ignoredFiles) (Split data) p = Inr i"
      by auto
    then show "precedingLineBeginsWithMarker (Split data) p \<or> withinFile (Split data) p"
      by (simp add: checkLine_Inr_iff)
  qed
  have panics: "CheckIssues order readFile lines = Inl IndexOutOfRange"
    if none: "\<forall>issues. CheckIssues order readFile lines \<noteq> Inr issues"
  proof -
    from none obtain e where e: "CheckIssues order readFile lines = Inl e"
      by (cases "CheckIssues order readFile lines") auto
    from filesLoop_error [OF e [unfolded CheckIssues_def]]
    have "e = IndexOutOfRange \<or>
        (\<exists>f\<in>set order. readFile f = None \<and> groupByFile Map.empty lines f \<noteq> None)"
      by auto
    moreover have "readFile f \<noteq> None" if "groupByFile Map.empty lines f \<noteq> None" for f
      using that readable by (auto simp: groupByFile_keys split: if_splits)
    ultimately have "e = IndexOutOfRange" by blast
    with e show ?thesis by simp
  qed
  have first: "\<exists>data. readFile (Filename (statement i)) = Some data \<and>
                  (ignored i \<longleftrightarrow>
                     HasIgnoreComment (Split data ! 0) \<or> pathIsIgnored (Filename (statement i)))"
    if run: "CheckIssues order readFile lines = Inr issues" and i: "i \<in> set issues"
      and l: "Line (statement i) = 1" for issues i
  proof -
    from i CheckIssues_members [OF run] obtain p data where
      d: "readFile (Filename p) = Some data"
      and c: "checkLine (fileIsIgnoredLoop (Filename p) ignoredFiles) (Split data) p = Inr i"
      by blast
    from checkLine_statement [OF c] have s: "statement i = p" .
    with l checkLine_first_line [OF c] d show ?thesis
      by (auto simp: pathIsIgnored_def fileIsIgnoredLoop_iff)
  qed
  have within: "?safe"
    if "\<forall>p\<in>set lines. \<forall>data. readFile (Filename p) = Some data \<longrightarrow> withinFile (Split data) p"
    using that by blast
  from returns safe panics first within show ?thesis by blast
qed

text \<open>
  Claim C10 as it is worded makes the precondition necessary, and that fails: in a file of
  one line that is the marker, a finding on line 2 lies beyond the file, and
  \<^verbatim>\<open>CheckIssues\<close> returns it as ignored without any access out of range.
\<close>

theorem CheckIssues_line_bounds_counterexample:
  "CheckIssues [appFile] [appFile \<mapsto> markerOnlySource] [findingAt appFile 2]
     = Inr [\<lparr>statement = findingAt appFile 2, ignored = True\<rparr>]
   \<and> length (Split markerOnlySource) = 1
   \<and> \<not> Line (findingAt appFile 2) \<le> int (length (Split markerOnlySource))"
  by (simp add: suppression_eval appFile_def markerOnlySource_def findingAt_def)

theorem CheckIssues_line_bounds_witness:
  "keyOrder [appFile] [findingAt appFile 2]
   \<and> [appFile \<mapsto> shortSource] (Filename (findingAt appFile 2)) = Some shortSource
   \<and> \<not> withinFile (Split shortSource) (findingAt appFile 2)
   \<and> \<not> precedingLineBeginsWithMarker (Split shortSource) (findingAt appFile 2)
   \<and> CheckIssues [appFile] [appFile \<mapsto> shortSource] [findingAt appFile 2] = Inl IndexOutOfRange"
proof -
  let ?p = "findingAt appFile 2"
  have ord: "keyOrder [appFile] [?p]"
    by (simp add: keyOrder_def findingAt_def)
  have readable: "\<forall>p\<in>set [?p]. [appFile \<mapsto> shortSource] (Filename p) \<noteq> None"
    by (simp add: findingAt_def)
  have out: "\<not> withinFile (Split shortSource) ?p"
    by (simp add: withinFile_def shortSource_def findingAt_def)
  have nomark: "\<not> precedingLineBeginsWithMarker (Split shortSource) ?p"
    by (simp add: precedingLineBeginsWithMarker_def lineAt_def shortSource_def findingAt_def
        suppression_eval)
  have d: "[appFile \<mapsto> shortSource] (Filename ?p) = Some shortSource"
    by (simp add: findingAt_def)
  have mem: "?p \<in> set [?p]" by simp
  from CheckIssues_line_bounds [OF ord readable] out nomark d mem
  have "CheckIssues [appFile] [appFile \<mapsto> shortSource] [?p] = Inl IndexOutOfRange"
    by blast
  with ord d out nomark show ?thesis by (intro conjI)
qed


section \<open>Properties of the sink resolver\<close>

lemma paramNamesLoop_iff: "paramNamesLoop name names \<longleftrightarrow> name \<in> set names"
  by (induction names) auto

lemma FuncHasQueryFrom_found:
  "FuncHasQueryFrom sqlPkg s i = (k, True) \<Longrightarrow>
     i \<le> k \<and> k < int (length (Params s)) \<and> sensitive sqlPkg (Params s ! nat k) \<and>
     (\<forall>j. i \<le> j \<and> j < k \<longrightarrow> \<not> sensitive sqlPkg (Params s ! nat j))"
proof (induction sqlPkg s i rule: FuncHasQueryFrom.induct)
  case (1 sqlPkg s i)
  show ?case
  proof (cases "i < int (length (Params s))")
    case False
    with "1.prems" show ?thesis by (simp add: FuncHasQueryFrom.simps [of sqlPkg s i])
  next
    case inside: True
    show ?thesis
    proof (cases "paramNamesLoop (varName (Params s ! nat i)) (paramNames sqlPkg)")
      case True
      with inside "1.prems" have "k = i" by (simp add: FuncHasQueryFrom.simps [of sqlPkg s i])
      with True inside show ?thesis by (auto simp: sensitive_def paramNamesLoop_iff)
    next
      case False
      with inside "1.prems" have step: "FuncHasQueryFrom sqlPkg s (i + 1) = (k, True)"
        by (simp add: FuncHasQueryFrom.simps [of sqlPkg s i])
      from "1.IH" [OF inside False step]
      have ih: "i + 1 \<le> k" "k < int (length (Params s))" "sensitive sqlPkg (Params s ! nat k)"
        "\<forall>j. i + 1 \<le> j \<and> j < k \<longrightarrow> \<not> sensitive sqlPkg (Params s ! nat j)"
        by auto
      have "\<not> sensitive sqlPkg (Params s ! nat j)" if "i \<le> j" "j < k" for j
      proof (cases "j = i")
        case True
        with False show ?thesis by (simp add: sensitive_def paramNamesLoop_iff)
      next
        case False
        with that ih(4) show ?thesis by auto
      qed
      with ih show ?thesis by auto
    qed
  qed
qed

lemma FuncHasQueryFrom_none:
  "FuncHasQueryFrom sqlPkg s i = (k, False) \<Longrightarrow>
     k = 0 \<and> (\<forall>j. i \<le> j \<and> j < int (length (Params s)) \<longrightarrow> \<not> sensitive sqlPkg (Params s ! nat j))"
proof (induction sqlPkg s i rule: FuncHasQueryFrom.induct)
  case (1 sqlPkg s i)
  show ?case
  proof (cases "i < int (length (Params s))")
    case False
    with "1.prems" have "k = 0" by (simp add: FuncHasQueryFrom.simps [of sqlPkg s i])
    with False show ?thesis by auto
  next
    case inside: True
    show ?thesis
    proof (cases "paramNamesLoop (varName (Params s ! nat i)) (paramNames sqlPkg)")
      case True
      with inside "1.prems" show ?thesis by (simp add: FuncHasQueryFrom.simps [of sqlPkg s i])
    next
      case False
      with inside "1.prems" have step: "FuncHasQueryFrom sqlPkg s (i + 1) = (k, False)"
        by (simp add: FuncHasQueryFrom.simps [of sqlPkg s i])
      from "1.IH" [OF inside False step]
      have ih: "k = 0"
        "\<forall>j. i + 1 \<le> j \<and> j < int (length (Params s)) \<longrightarrow> \<not> sensitive sqlPkg (Params s ! nat j)"
        by auto
      have "\<not> sensitive sqlPkg (Params s ! nat j)" if "i \<le> j" "j < int (length (Params s))" for j
      proof (cases "j = i")
        case True
        with False show ?thesis by (simp add: sensitive_def paramNamesLoop_iff)
      next
        case False
        with that ih(2) show ?thesis by auto
      qed
      with ih show ?thesis by auto
    qed
  qed
qed

lemma FuncHasQuery_ok_iff:
  "snd (FuncHasQuery sqlPkg s) \<longleftrightarrow> (\<exists>v\<in>set (Params s). sensitive sqlPkg v)"
proof (cases "FuncHasQuery sqlPkg s")
  case (Pair k ok)
  show ?thesis
  proof (cases ok)
    case True
    with Pair FuncHasQueryFrom_found [of sqlPkg s 0 k]
    have "0 \<le> k" "k < int (length (Params s))" "sensitive sqlPkg (Params s ! nat k)"
      by (auto simp: FuncHasQuery_def)
    then have "Params s ! nat k \<in> set (Params s)" by (intro nth_mem) auto
    with \<open>sensitive sqlPkg (Params s ! nat k)\<close> Pair True show ?thesis by auto
  next
    case False
    with Pair FuncHasQueryFrom_none [of sqlPkg s 0 k]
    have none: "\<forall>j. 0 \<le> j \<and> j < int (length (Params s)) \<longrightarrow> \<not> sensitive sqlPkg (Params s ! nat j)"
      by (auto simp: FuncHasQuery_def)
    have "\<not> sensitive sqlPkg v" if "v \<in> set (Params s)" for v
    proof -
      from that obtain n where n: "n < length (Params s)" "Params s ! n = v"
        by (auto simp: in_set_conv_nth)
      with none [rule_format, of "int n"] show ?thesis by auto
    qed
    with Pair False show ?thesis by auto
  qed
qed

lemma FuncHasQuery_first:
  assumes "snd (FuncHasQuery sqlPkg s)"
  shows "0 \<le> fst (FuncHasQuery sqlPkg s) \<and> fst (FuncHasQuery sqlPkg s) < int (length (Params s))
     \<and> firstMatch sqlPkg (Params s) (nat (fst (FuncHasQuery sqlPkg s)))"
proof -
  obtain k where k: "FuncHasQuery sqlPkg s = (k, True)"
    using assms by (cases "FuncHasQuery sqlPkg s") auto
  from FuncHasQueryFrom_found [of sqlPkg s 0 k] k
  have f: "0 \<le> k" "k < int (length (Params s))" "sensitive sqlPkg (Params s ! nat k)"
    "\<forall>j. 0 \<le> j \<and> j < k \<longrightarrow> \<not> sensitive sqlPkg (Params s ! nat j)"
    by (auto simp: FuncHasQuery_def)
  have "\<not> sensitive sqlPkg (Params s ! j)" if "j < nat k" for j
    using f(4) [rule_format, of "int j"] that by auto
  with f k show ?thesis by (auto simp: firstMatch_def)
qed

lemma FuncHasQueryFrom_names:
  "map varName (Params s) = map varName (Params s') \<Longrightarrow> 0 \<le> i \<Longrightarrow>
     FuncHasQueryFrom sqlPkg s i = FuncHasQueryFrom sqlPkg s' i"
proof (induction sqlPkg s i rule: FuncHasQueryFrom.induct)
  case (1 sqlPkg s i)
  from "1.prems" have len: "length (Params s) = length (Params s')"
    by (metis length_map)
  show ?case
  proof (cases "i < int (length (Params s))")
    case False
    with len have "\<not> i < int (length (Params s'))" by simp
    with False show ?thesis
      by (simp only: FuncHasQueryFrom.simps [of sqlPkg s i] FuncHasQueryFrom.simps [of sqlPkg s' i]
          if_False)
  next
    case inside: True
    with "1.prems"(2) have "nat i < length (Params s)" by auto
    with "1.prems"(1) len have name: "varName (Params s ! nat i) = varName (Params s' ! nat i)"
      by (metis nth_map)
    show ?thesis
    proof (cases "paramNamesLoop (varName (Params s ! nat i)) (paramNames sqlPkg)")
      case True
      from inside len have inside': "i < int (length (Params s'))" by simp
      from True name have "paramNamesLoop (varName (Params s' ! nat i)) (paramNames sqlPkg)" by simp
      with True inside inside' show ?thesis
        by (simp only: FuncHasQueryFrom.simps [of sqlPkg s i] FuncHasQueryFrom.simps [of sqlPkg s' i]
            if_True)
    next
      case False
      from inside len have inside': "i < int (length (Params s'))" by simp
      from False name have "\<not> paramNamesLoop (varName (Params s' ! nat i)) (paramNames sqlPkg)"
        by simp
      moreover from "1.prems"(2) have "0 \<le> i + 1" by simp
      ultimately show ?thesis
        using "1.IH" [OF inside False "1.prems"(1)] False inside inside'
        by (simp only: FuncHasQueryFrom.simps [of sqlPkg s i] FuncHasQueryFrom.simps [of sqlPkg s' i]
            if_True if_False)
    qed
  qed
qed

lemma methodsLoop_eq:
  "methodsLoop sqlPkg ssa methods ms =
     methods @ map (mkSink sqlPkg ssa)
       (filter (\<lambda>m. snd (FuncHasQuery sqlPkg (funcType m))) (filter funcExported ms))"
  by (induction ms arbitrary: methods) (auto simp: mkSink_def Let_def split: prod.splits)

lemma namesLoop_eq:
  "typeNamesAreNamed objs \<Longrightarrow>
   namesLoop sqlPkg ssa methods objs =
     Inr (methods @ map (mkSink sqlPkg ssa)
            (filter (\<lambda>m. snd (FuncHasQuery sqlPkg (funcType m))) (concat (map exportedDeclaredMethods objs))))"
proof (induction objs arbitrary: methods)
  case Nil
  then show ?case by simp
next
  case (Cons obj objs)
  from Cons.prems have rest: "typeNamesAreNamed objs" and this_one: "denotesNamed obj"
    by (auto simp: typeNamesAreNamed_def)
  show ?case
  proof (cases obj)
    case (OtherObject name exported)
    with Cons.IH [OF rest] show ?thesis by simp
  next
    case (TypeName name exported t)
    show ?thesis
    proof (cases t)
      case (Named ms others)
      with TypeName Cons.IH [OF rest] show ?thesis by (simp add: methodsLoop_eq)
    next
      case (NotNamed u)
      with TypeName this_one Cons.IH [OF rest] show ?thesis by simp
    qed
  qed
qed

lemma namesLoop_panics:
  "\<not> typeNamesAreNamed objs \<Longrightarrow> namesLoop sqlPkg ssa methods objs = Inl InterfaceConversion"
proof (induction objs arbitrary: methods)
  case Nil
  then show ?case by (simp add: typeNamesAreNamed_def)
next
  case (Cons obj objs)
  show ?case
  proof (cases "denotesNamed obj")
    case True
    with Cons.prems have "\<not> typeNamesAreNamed objs" by (simp add: typeNamesAreNamed_def)
    from Cons.IH [OF this] True show ?thesis
      by (cases obj) (auto split: declaredType.splits)
  next
    case False
    then show ?thesis by (cases obj rule: denotesNamed.cases) auto
  qed
qed

lemma exportedDeclaredMethods_claimed:
  "set (exportedDeclaredMethods obj) \<subseteq> set (exportedMethodsAsClaimed obj)"
  by (cases obj rule: exportedDeclaredMethods.cases) auto

lemma sinkMethods_claimed:
  "set (sinkMethods sqlPkg objs) \<subseteq> set (sinkMethodsAsClaimed sqlPkg objs)"
  using exportedDeclaredMethods_claimed
  by (fastforce simp: sinkMethods_def sinkMethodsAsClaimed_def)

lemma FindQueryMethods_eq:
  "FindQueryMethods sqlPkg sql ssa =
     (if typeNamesAreNamed (Scope sql)
      then Inr (map (mkSink sqlPkg ssa) (sinkMethods sqlPkg (Scope sql)))
      else Inl InterfaceConversion)"
  by (simp add: FindQueryMethods_def namesLoop_eq namesLoop_panics sinkMethods_def FuncHasQuery_ok_iff)

text \<open>
  Claim C5, for the methods the code enumerates. Let every exported type name of the
  package denote a named type. Then \<^verbatim>\<open>FindQueryMethods\<close> returns, and it emits a sink
  exactly for each exported method declared with an exported named type as its receiver
  (the methods of \<^verbatim>\<open>Method(i)\<close>) whose signature has a parameter whose name is one of the
  sensitive names of the package, in scope order; every sink is for one of the methods
  the claim names, but the methods of an underlying interface and the promoted methods
  get none. The recorded parameter index is the first match in the order of declaration,
  the recorded argument count is the number of declared parameters, the receiver not
  among them. The match is by name only: two signatures with the same parameter names,
  whatever the types, get the same answer from \<^verbatim>\<open>FuncHasQuery\<close>.
\<close>

theorem FindQueryMethods_sinks:
  assumes "typeNamesAreNamed (Scope sql)"
  shows "(\<exists>qms. FindQueryMethods sqlPkg sql ssa = Inr qms
            \<and> map Func qms = sinkMethods sqlPkg (Scope sql)
            \<and> set (map Func qms) \<subseteq> set (sinkMethodsAsClaimed sqlPkg (Scope sql))
            \<and> (\<forall>qm\<in>set qms.
                  SSA qm = FuncValue ssa (Func qm)
                  \<and> ArgCount qm = int (length (Params (funcType (Func qm))))
                  \<and> 0 \<le> Param qm
                  \<and> firstMatch sqlPkg (Params (funcType (Func qm))) (nat (Param qm))))
       \<and> (\<forall>s s'. map varName (Params s) = map varName (Params s')
             \<longrightarrow> FuncHasQuery sqlPkg s = FuncHasQuery sqlPkg s')"
proof -
  let ?qms = "map (mkSink sqlPkg ssa) (sinkMethods sqlPkg (Scope sql))"
  from assms have run: "FindQueryMethods sqlPkg sql ssa = Inr ?qms"
    by (simp add: FindQueryMethods_eq)
  have funcs: "map Func ?qms = sinkMethods sqlPkg (Scope sql)"
    by (simp add: mkSink_def o_def)
  have each: "SSA qm = FuncValue ssa (Func qm)
                  \<and> ArgCount qm = int (length (Params (funcType (Func qm))))
                  \<and> 0 \<le> Param qm
                  \<and> firstMatch sqlPkg (Params (funcType (Func qm))) (nat (Param qm))"
    if "qm \<in> set ?qms" for qm
  proof -
    from that obtain m where m: "m \<in> set (sinkMethods sqlPkg (Scope sql))" "qm = mkSink sqlPkg ssa m"
      by auto
    from m(1) have "snd (FuncHasQuery sqlPkg (funcType m))"
      by (simp add: sinkMethods_def FuncHasQuery_ok_iff)
    from FuncHasQuery_first [OF this] m(2) show ?thesis
      by (simp add: mkSink_def)
  qed
  have names: "FuncHasQuery sqlPkg s = FuncHasQuery sqlPkg s'"
    if "map varName (Params s) = map varName (Params s')" for s s'
    unfolding FuncHasQuery_def using that by (intro FuncHasQueryFrom_names) simp_all
  have "\<exists>qms. FindQueryMethods sqlPkg sql ssa = Inr qms
            \<and> map Func qms = sinkMethods sqlPkg (Scope sql)
            \<and> set (map Func qms) \<subseteq> set (sinkMethodsAsClaimed sqlPkg (Scope sql))
            \<and> (\<forall>qm\<in>set qms.
                  SSA qm = FuncValue ssa (Func qm)
                  \<and> ArgCount qm = int (length (Params (funcType (Func qm))))
                  \<and> 0 \<le> Param qm
                  \<and> firstMatch sqlPkg (Params (funcType (Func qm))) (nat (Param qm)))"
  proof (intro exI conjI)
    show "FindQueryMethods sqlPkg sql ssa = Inr ?qms" by (rule run)
    show "map Func ?qms = sinkMethods sqlPkg (Scope sql)" by (rule funcs)
    show "set (map Func ?qms) \<subseteq> set (sinkMethodsAsClaimed sqlPkg (Scope sql))"
      unfolding funcs by (rule sinkMethods_claimed)
    show "\<forall>qm\<in>set ?qms.
                  SSA qm = FuncValue ssa (Func qm)
                  \<and> ArgCount qm = int (length (Params (funcType (Func qm))))
                  \<and> 0 \<le> Param qm
                  \<and> firstMatch sqlPkg (Params (funcType (Func qm))) (nat (Param qm))"
      using each by blast
  qed
  moreover have "\<forall>s s'. map varName (Params s) = map varName (Params s')
             \<longrightarrow> FuncHasQuery sqlPkg s = FuncHasQuery sqlPkg s'"
    using names by blast
  ultimately show ?thesis by (rule conjI)
qed

text \<open>
  Claim C5 as it is worded fails. In a part of package \<^verbatim>\<open>github.com/jackc/pgx/v4\<close> the
  exported interface type \<^verbatim>\<open>Tx\<close> has the exported method \<^verbatim>\<open>Exec\<close> with a parameter named
  \<^verbatim>\<open>sql\<close>, and \<^verbatim>\<open>FindQueryMethods\<close> emits a sink for \<^verbatim>\<open>(*Conn).Exec\<close> only, because
  \<^verbatim>\<open>NumMethods()\<close> of an interface type is 0. And beside an exported alias of a type that
  is not a named type, \<^verbatim>\<open>FindQueryMethods\<close> panics at the type assertion and emits no
  sink at all, though two methods of \<^verbatim>\<open>DB\<close> qualify.
\<close>

theorem FindQueryMethods_sinks_counterexample:
  "FindQueryMethods (sqlPackages ! 3) pgxV4 pgxProgram =
     Inr [\<lparr>Func = pgxConnExec,
           SSA = \<lparr>fnName = ''(*github.com/jackc/pgx/v4.Conn).Exec'',
                   PkgPath = Some ''github.com/jackc/pgx/v4''\<rparr>,
           ArgCount = 3, Param = 1\<rparr>]
   \<and> sinkMethodsAsClaimed (sqlPackages ! 3) (Scope pgxV4) = [pgxConnExec, pgxTxExec]
   \<and> pgxTxExec \<noteq> pgxConnExec
   \<and> FindQueryMethods (hd sqlPackages) aliasedSql ssaProgram = Inl InterfaceConversion
   \<and> sinkMethodsAsClaimed (hd sqlPackages) (Scope aliasedSql) = [dbQuery, dbQueryContext]"
proof -
  have "FindQueryMethods (sqlPackages ! 3) pgxV4 pgxProgram =
     Inr [\<lparr>Func = pgxConnExec,
           SSA = \<lparr>fnName = ''(*github.com/jackc/pgx/v4.Conn).Exec'',
                   PkgPath = Some ''github.com/jackc/pgx/v4''\<rparr>,
           ArgCount = 3, Param = 1\<rparr>]"
    by code_simp
  moreover have "sinkMethodsAsClaimed (sqlPackages ! 3) (Scope pgxV4) = [pgxConnExec, pgxTxExec]"
    by code_simp
  moreover have "pgxTxExec \<noteq> pgxConnExec"
    by (simp add: pgxTxExec_def pgxConnExec_def)
  moreover have "FindQueryMethods (hd sqlPackages) aliasedSql ssaProgram = Inl InterfaceConversion"
    by code_simp
  moreover have "sinkMethodsAsClaimed (hd sqlPackages) (Scope aliasedSql) = [dbQuery, dbQueryContext]"
    by code_simp
  ultimately show ?thesis by (intro conjI)
qed

lemma databaseSql_run:
  "FindQueryMethods (hd sqlPackages) databaseSql ssaProgram =
     Inr [\<lparr>Func = dbQuery, SSA = \<lparr>fnName = ''(*database/sql.DB).Query'', PkgPath = Some ''database/sql''\<rparr>,
           ArgCount = 2, Param = 0\<rparr>,
          \<lparr>Func = dbQueryContext,
           SSA = \<lparr>fnName = ''(*database/sql.DB).QueryContext'', PkgPath = Some ''database/sql''\<rparr>,
           ArgCount = 3, Param = 1\<rparr>]"
  by code_simp

theorem FindQueryMethods_sinks_witness:
  "typeNamesAreNamed (Scope databaseSql)
   \<and> FindQueryMethods (hd sqlPackages) databaseSql ssaProgram =
       Inr [\<lparr>Func = dbQuery, SSA = \<lparr>fnName = ''(*database/sql.DB).Query'', PkgPath = Some ''database/sql''\<rparr>,
             ArgCount = 2, Param = 0\<rparr>,
            \<lparr>Func = dbQueryContext,
             SSA = \<lparr>fnName = ''(*database/sql.DB).QueryContext'', PkgPath = Some ''database/sql''\<rparr>,
             ArgCount = 3, Param = 1\<rparr>]
   \<and> sinkMethods (hd sqlPackages) (Scope databaseSql) = [dbQuery, dbQueryContext]
   \<and> firstMatch (hd sqlPackages) (Params (funcType dbQueryContext)) 1
   \<and> FuncHasQuery (hd sqlPackages) boxedQuerySignature = FuncHasQuery (hd sqlPackages) (funcType dbQuery)"
proof -
  let ?q1 = "\<lparr>Func = dbQuery,
      SSA = \<lparr>fnName = ''(*database/sql.DB).Query'', PkgPath = Some ''database/sql''\<rparr>,
      ArgCount = 2, Param = 0\<rparr>"
  let ?q2 = "\<lparr>Func = dbQueryContext,
      SSA = \<lparr>fnName = ''(*database/sql.DB).QueryContext'', PkgPath = Some ''database/sql''\<rparr>,
      ArgCount = 3, Param = 1\<rparr>"
  have named: "typeNamesAreNamed (Scope databaseSql)"
    by (simp add: typeNamesAreNamed_def databaseSql_def)
  have names: "map varName (Params boxedQuerySignature) = map varName (Params (funcType dbQuery))"
    by (simp add: boxedQuerySignature_def dbQuery_def queryVar_def argsVar_def)
  note inst = FindQueryMethods_sinks [OF named, of "hd sqlPackages" ssaProgram]
  from inst obtain qms where
    run: "FindQueryMethods (hd sqlPackages) databaseSql ssaProgram = Inr qms"
    and funcs: "map Func qms = sinkMethods (hd sqlPackages) (Scope databaseSql)"
    and each: "\<forall>qm\<in>set qms. firstMatch (hd sqlPackages) (Params (funcType (Func qm))) (nat (Param qm))"
    by blast
  from run have qms: "qms = [?q1, ?q2]"
    by (simp only: databaseSql_run sum.inject)
  from funcs have sinks: "sinkMethods (hd sqlPackages) (Scope databaseSql) = [dbQuery, dbQueryContext]"
    unfolding qms by simp
  from each have first: "firstMatch (hd sqlPackages) (Params (funcType dbQueryContext)) 1"
    unfolding qms by simp
  from inst names
  have same: "FuncHasQuery (hd sqlPackages) boxedQuerySignature = FuncHasQuery (hd sqlPackages) (funcType dbQuery)"
    by blast
  from named databaseSql_run sinks first same show ?thesis by (intro conjI)
qed

text \<open>
  Claim C6. Every record that \<^verbatim>\<open>FindQueryMethods\<close> produces has
  \<open>0 \<le> Param < ArgCount\<close>: the parameter index is an index of the parameter list.
\<close>

theorem FindQueryMethods_param_in_range:
  assumes "FindQueryMethods sqlPkg sql ssa = Inr qms" and "qm \<in> set qms"
  shows "0 \<le> Param qm \<and> Param qm < ArgCount qm"
proof -
  from assms(1) have "qms = map (mkSink sqlPkg ssa) (sinkMethods sqlPkg (Scope sql))"
    by (simp add: FindQueryMethods_eq split: if_splits)
  with assms(2) obtain m where m: "m \<in> set (sinkMethods sqlPkg (Scope sql))" "qm = mkSink sqlPkg ssa m"
    by auto
  from m(1) have "snd (FuncHasQuery sqlPkg (funcType m))"
    by (simp add: sinkMethods_def FuncHasQuery_ok_iff)
  from FuncHasQuery_first [OF this] m(2) show ?thesis
    by (simp add: mkSink_def)
qed

theorem FindQueryMethods_param_in_range_witness:
  "FindQueryMethods (hd sqlPackages) databaseSql ssaProgram =
     Inr [\<lparr>Func = dbQuery, SSA = \<lparr>fnName = ''(*database/sql.DB).Query'', PkgPath = Some ''database/sql''\<rparr>,
           ArgCount = 2, Param = 0\<rparr>,
          \<lparr>Func = dbQueryContext,
           SSA = \<lparr>fnName = ''(*database/sql.DB).QueryContext'', PkgPath = Some ''database/sql''\<rparr>,
           ArgCount = 3, Param = 1\<rparr>]
   \<and> (0::int) \<le> 1 \<and> (1::int) < 3"
  using FindQueryMethods_param_in_range [OF databaseSql_run,
      of "\<lparr>Func = dbQueryContext,
           SSA = \<lparr>fnName = ''(*database/sql.DB).QueryContext'', PkgPath = Some ''database/sql''\<rparr>,
           ArgCount = 3, Param = 1\<rparr>"]
    databaseSql_run
  by simp

section \<open>Properties of the unsafe-call detector\<close>

lemma isInternalSQLPkgLoop_iff:
  "isInternalSQLPkgLoop path pkgs \<longleftrightarrow> path \<in> packageName ` set pkgs"
  by (induction pkgs) auto

lemma edgeBody_acc:
  "edgeBody okFuncs m bad edge =
     (case edgeBody okFuncs m [] edge of Inl e \<Rightarrow> Inl e | Inr new \<Rightarrow> Inr (bad @ new))"
  by (simp add: edgeBody_def split: option.splits sum.splits)

lemma edgeBody_new:
  "edgeBody okFuncs m [] edge = Inr new \<Longrightarrow> new = [] \<or> (\<exists>site. Site edge = Some site \<and> new = [site])"
  by (auto simp: edgeBody_def split: option.splits sum.splits if_splits)

lemma edgesLoop_members:
  "edgesLoop okFuncs m bad es = Inr out \<Longrightarrow>
     s \<in> set out \<longleftrightarrow> s \<in> set bad \<or> (\<exists>e\<in>set es. edgeBody okFuncs m [] e = Inr [s])"
proof (induction es arbitrary: bad)
  case Nil
  then show ?case by simp
next
  case (Cons e es)
  from Cons.prems obtain mid where
    b: "edgeBody okFuncs m bad e = Inr mid" and r: "edgesLoop okFuncs m mid es = Inr out"
    by (auto split: sum.splits)
  from b obtain new where n: "edgeBody okFuncs m [] e = Inr new" and mid: "mid = bad @ new"
    by (subst (asm) edgeBody_acc) (auto split: sum.splits)
  from edgeBody_new [OF n] have "s \<in> set new \<longleftrightarrow> edgeBody okFuncs m [] e = Inr [s]"
    using n by auto
  with Cons.IH [OF r] mid show ?case by auto
qed

lemma edgesLoop_all_ok:
  "edgesLoop okFuncs m bad es = Inr out \<Longrightarrow> e \<in> set es \<Longrightarrow>
     \<exists>new. edgeBody okFuncs m [] e = Inr new"
proof (induction es arbitrary: bad)
  case Nil
  then show ?case by simp
next
  case (Cons e' es)
  from Cons.prems(1) obtain mid where
    b: "edgeBody okFuncs m bad e' = Inr mid" and r: "edgesLoop okFuncs m mid es = Inr out"
    by (auto split: sum.splits)
  from b obtain new where n: "edgeBody okFuncs m [] e' = Inr new"
    by (subst (asm) edgeBody_acc) (auto split: sum.splits)
  show ?case
  proof (cases "e = e'")
    case True
    with n show ?thesis by blast
  next
    case False
    with Cons.prems(2) have "e \<in> set es" by simp
    from Cons.IH [OF r this] show ?thesis .
  qed
qed

lemma sinksLoop_members:
  "sinksLoop cg okFuncs bad qms = Inr out \<Longrightarrow>
     s \<in> set out \<longleftrightarrow>
       s \<in> set bad \<or>
       (\<exists>m\<in>set qms. \<exists>e\<in>set (In (CreateNode cg (SSA m))). edgeBody okFuncs m [] e = Inr [s])"
proof (induction qms arbitrary: bad)
  case Nil
  then show ?case by simp
next
  case (Cons m qms)
  from Cons.prems obtain mid where
    b: "edgesLoop okFuncs m bad (In (CreateNode cg (SSA m))) = Inr mid"
    and r: "sinksLoop cg okFuncs mid qms = Inr out"
    by (auto split: sum.splits)
  from Cons.IH [OF r] edgesLoop_members [OF b] show ?case by auto
qed

lemma sinksLoop_all_ok:
  "sinksLoop cg okFuncs bad qms = Inr out \<Longrightarrow> m \<in> set qms \<Longrightarrow>
   e \<in> set (In (CreateNode cg (SSA m))) \<Longrightarrow> \<exists>new. edgeBody okFuncs m [] e = Inr new"
proof (induction qms arbitrary: bad)
  case Nil
  then show ?case by simp
next
  case (Cons m' qms)
  from Cons.prems(1) obtain mid where
    b: "edgesLoop okFuncs m' bad (In (CreateNode cg (SSA m'))) = Inr mid"
    and r: "sinksLoop cg okFuncs mid qms = Inr out"
    by (auto split: sum.splits)
  show ?case
  proof (cases "m = m'")
    case True
    with edgesLoop_all_ok [OF b] Cons.prems(3) show ?thesis by blast
  next
    case False
    with Cons.prems(2) have "m \<in> set qms" by simp
    from Cons.IH [OF r this Cons.prems(3)] show ?thesis .
  qed
qed

lemma FindNonConstCalls_members:
  assumes "FindNonConstCalls dsn cg qms = Inr bad"
  shows "s \<in> set bad \<longleftrightarrow>
     (\<exists>m\<in>set qms. \<exists>e\<in>set (In (CreateNode (dsn cg) (SSA m))).
        edgeBody (set (map SSA qms)) m [] e = Inr [s])"
  using sinksLoop_members [OF assms [unfolded FindNonConstCalls_def Let_def], of s] by simp

lemma FindNonConstCalls_all_ok:
  assumes "FindNonConstCalls dsn cg qms = Inr bad" "m \<in> set qms"
    "e \<in> set (In (CreateNode (dsn cg) (SSA m)))"
  shows "\<exists>new. edgeBody (set (map SSA qms)) m [] e = Inr new"
  using sinksLoop_all_ok [OF assms(1) [unfolded FindNonConstCalls_def Let_def] assms(2,3)] .

lemma FindNonConstCalls_aborts:
  assumes "m \<in> set qms" "e \<in> set (In (CreateNode (dsn cg) (SSA m)))"
    "edgeBody (set (map SSA qms)) m [] e = Inl err"
  shows "\<exists>err'. FindNonConstCalls dsn cg qms = Inl err'"
proof (cases "FindNonConstCalls dsn cg qms")
  case (Inl err')
  then show ?thesis by blast
next
  case (Inr bad)
  from FindNonConstCalls_all_ok [OF Inr assms(1,2)] assms(3) show ?thesis by simp
qed

lemma tracked_loop: "isInternalSQLPkgLoop path sqlPackages \<longleftrightarrow> tracked path"
  by (simp add: tracked_def isInternalSQLPkgLoop_iff)

lemma edgeBody_eval:
  assumes "Site e = Some site" "Parent site \<notin> okFuncs" "PkgPath (Caller e) = Some path"
    "\<not> tracked path"
  shows "edgeBody okFuncs m bad e =
     (case sinkArgument m site of
        Inl err \<Rightarrow> Inl err
      | Inr v \<Rightarrow> if isConst v \<or> boxedSafely v then Inr bad else Inr (bad @ [site]))"
  using assms by (simp add: edgeBody_def tracked_loop split: sum.splits)

lemma edgeBody_flags:
  "edgeBody okFuncs m [] e = Inr [site] \<longleftrightarrow>
     Site e = Some site \<and> Parent site \<notin> okFuncs \<and>
     (\<exists>path. PkgPath (Caller e) = Some path \<and> \<not> tracked path) \<and>
     (\<exists>v. sinkArgument m site = Inr v \<and> \<not> isConst v \<and> \<not> boxedSafely v)"
  by (auto simp: edgeBody_def tracked_loop split: option.splits sum.splits if_splits)

lemma appGraph_run:
  "FindNonConstCalls noSyntheticNodes appGraph [sinkQuery, sinkQueryContext] = Inr [unsafeSite]"
  by code_simp

lemma brokenGraph_run:
  "FindNonConstCalls noSyntheticNodes brokenGraph [sinkQuery, sinkQueryContext] = Inl ArgCountMismatch"
  by code_simp

lemma dispatchGraph_run:
  "FindNonConstCalls noSyntheticNodes dispatchGraph [sinkTaggedDB, sinkTaggedTx] = Inr [dispatchSite]"
  by code_simp

lemma gormGraph_run:
  "FindNonConstCalls noSyntheticNodes gormGraph [sinkWhere] = Inr [boxedParameterSite]"
  by code_simp

lemma pgxGraph_run:
  "FindNonConstCalls noSyntheticNodes pgxGraph [sinkExec] = Inr [poolSite]"
  by code_simp

text \<open>
  Claim C1. Let \<^verbatim>\<open>FindNonConstCalls\<close> return its list. For every call edge into the node
  of a resolved sink whose argument at the sink's parameter index is a runtime value (not
  a constant, and not covered by the boxing exception), the call site is in the returned
  list, unless the function of the call site is itself one of the sink functions or the
  package path of the caller is one of the tracked package identifiers.
\<close>

theorem FindNonConstCalls_flags_nonconst:
  assumes run: "FindNonConstCalls DeleteSyntheticNodes cg qms = Inr bad"
    and m: "m \<in> set qms"
    and e: "e \<in> set (In (CreateNode (DeleteSyntheticNodes cg) (SSA m)))"
    and site: "Site e = Some site"
    and caller: "Parent site \<notin> SSA ` set qms"
    and pkg: "PkgPath (Caller e) = Some path" "\<not> tracked path"
    and arg: "sinkArgument m site = Inr v" "\<not> isConst v" "\<not> boxedSafely v"
  shows "site \<in> set bad"
proof -
  from site caller pkg arg have "edgeBody (set (map SSA qms)) m [] e = Inr [site]"
    by (simp add: edgeBody_flags)
  with FindNonConstCalls_members [OF run, of site] m e show ?thesis by blast
qed

theorem FindNonConstCalls_flags_nonconst_witness:
  "FindNonConstCalls noSyntheticNodes appGraph [sinkQuery, sinkQueryContext] = Inr [unsafeSite]
   \<and> sinkQuery \<in> set [sinkQuery, sinkQueryContext]
   \<and> edgeFrom unsafeSite \<in> set (In (CreateNode (noSyntheticNodes appGraph) (SSA sinkQuery)))
   \<and> Site (edgeFrom unsafeSite) = Some unsafeSite
   \<and> Parent unsafeSite \<notin> SSA ` set [sinkQuery, sinkQueryContext]
   \<and> PkgPath (Caller (edgeFrom unsafeSite)) = Some ''example.com/app''
   \<and> \<not> tracked ''example.com/app''
   \<and> sinkArgument sinkQuery unsafeSite = Inr builtQuery
   \<and> \<not> isConst builtQuery \<and> \<not> boxedSafely builtQuery
   \<and> unsafeSite \<in> set [unsafeSite]"
proof -
  have m: "sinkQuery \<in> set [sinkQuery, sinkQueryContext]" by simp
  have e: "edgeFrom unsafeSite \<in> set (In (CreateNode (noSyntheticNodes appGraph) (SSA sinkQuery)))"
    by code_simp
  have site: "Site (edgeFrom unsafeSite) = Some unsafeSite" by (simp add: edgeFrom_def)
  have caller: "Parent unsafeSite \<notin> SSA ` set [sinkQuery, sinkQueryContext]" by code_simp
  have pkg: "PkgPath (Caller (edgeFrom unsafeSite)) = Some ''example.com/app''" by code_simp
  have untracked: "\<not> tracked ''example.com/app''" by code_simp
  have arg: "sinkArgument sinkQuery unsafeSite = Inr builtQuery" by code_simp
  have nonconst: "\<not> isConst builtQuery" by code_simp
  have unboxed: "\<not> boxedSafely builtQuery" by code_simp
  from FindNonConstCalls_flags_nonconst [OF appGraph_run m e site caller pkg untracked arg nonconst unboxed]
    appGraph_run m e site caller pkg untracked arg nonconst unboxed
  show ?thesis by (intro conjI)
qed

text \<open>
  Claim C2, edge by edge. Let \<^verbatim>\<open>FindNonConstCalls\<close> return its list. An edge into the
  node of a resolved sink whose argument at the sink's parameter index is a constant adds
  no call site; and a call site is in the returned list only when some edge that carries
  it into a sink node has a non-constant argument that the boxing exception does not
  cover. So the site of an edge with a constant argument is absent unless another edge
  of the same call instruction is found unsafe.
\<close>

theorem FindNonConstCalls_skips_const:
  assumes run: "FindNonConstCalls DeleteSyntheticNodes cg qms = Inr bad"
    and m: "m \<in> set qms"
    and e: "e \<in> set (In (CreateNode (DeleteSyntheticNodes cg) (SSA m)))"
    and site: "Site e = Some site"
    and arg: "sinkArgument m site = Inr v" "isConst v"
  shows "(\<forall>acc. edgeBody (SSA ` set qms) m acc e = Inr acc)
       \<and> (site \<in> set bad \<longrightarrow>
            (\<exists>m'\<in>set qms. \<exists>e'\<in>set (In (CreateNode (DeleteSyntheticNodes cg) (SSA m'))).
               Site e' = Some site \<and>
               (\<exists>v'. sinkArgument m' site = Inr v' \<and> \<not> isConst v' \<and> \<not> boxedSafely v')))"
proof -
  from FindNonConstCalls_all_ok [OF run m e] obtain new where
    n: "edgeBody (SSA ` set qms) m [] e = Inr new" by auto
  with site arg have "new = []"
    by (auto simp: edgeBody_def split: option.splits if_splits)
  with n have "edgeBody (SSA ` set qms) m acc e = Inr acc" for acc
    by (subst edgeBody_acc) simp
  moreover have "\<exists>m'\<in>set qms. \<exists>e'\<in>set (In (CreateNode (DeleteSyntheticNodes cg) (SSA m'))).
               Site e' = Some site \<and>
               (\<exists>v'. sinkArgument m' site = Inr v' \<and> \<not> isConst v' \<and> \<not> boxedSafely v')"
    if "site \<in> set bad"
    using that FindNonConstCalls_members [OF run, of site] by (auto simp: edgeBody_flags)
  ultimately show ?thesis by blast
qed

text \<open>
  Claim C2 as it is worded fails: the edge from \<open>dispatchSite\<close> into the first sink has a
  constant at that sink's parameter index, and the call site is in the returned list all
  the same, recorded for the edge into the second sink.
\<close>

theorem FindNonConstCalls_skips_const_counterexample:
  "FindNonConstCalls noSyntheticNodes dispatchGraph [sinkTaggedDB, sinkTaggedTx] = Inr [dispatchSite]
   \<and> sinkTaggedDB \<in> set [sinkTaggedDB, sinkTaggedTx]
   \<and> edgeFrom dispatchSite \<in> set (In (CreateNode (noSyntheticNodes dispatchGraph) (SSA sinkTaggedDB)))
   \<and> Site (edgeFrom dispatchSite) = Some dispatchSite
   \<and> sinkArgument sinkTaggedDB dispatchSite = Inr literalQuery
   \<and> isConst literalQuery
   \<and> dispatchSite \<in> set [dispatchSite]"
proof -
  have "edgeFrom dispatchSite \<in> set (In (CreateNode (noSyntheticNodes dispatchGraph) (SSA sinkTaggedDB)))"
    by code_simp
  moreover have "Site (edgeFrom dispatchSite) = Some dispatchSite" by (simp add: edgeFrom_def)
  moreover have "sinkArgument sinkTaggedDB dispatchSite = Inr literalQuery" by code_simp
  moreover have "isConst literalQuery" by code_simp
  ultimately show ?thesis using dispatchGraph_run by simp
qed

theorem FindNonConstCalls_skips_const_witness:
  "FindNonConstCalls noSyntheticNodes appGraph [sinkQuery, sinkQueryContext] = Inr [unsafeSite]
   \<and> sinkQuery \<in> set [sinkQuery, sinkQueryContext]
   \<and> edgeFrom safeSite \<in> set (In (CreateNode (noSyntheticNodes appGraph) (SSA sinkQuery)))
   \<and> Site (edgeFrom safeSite) = Some safeSite
   \<and> sinkArgument sinkQuery safeSite = Inr literalQuery
   \<and> isConst literalQuery
   \<and> edgeBody (SSA ` set [sinkQuery, sinkQueryContext]) sinkQuery [unsafeSite] (edgeFrom safeSite)
       = Inr [unsafeSite]"
proof -
  have m: "sinkQuery \<in> set [sinkQuery, sinkQueryContext]" by simp
  have e: "edgeFrom safeSite \<in> set (In (CreateNode (noSyntheticNodes appGraph) (SSA sinkQuery)))"
    by code_simp
  have site: "Site (edgeFrom safeSite) = Some safeSite" by (simp add: edgeFrom_def)
  have arg: "sinkArgument sinkQuery safeSite = Inr literalQuery" by code_simp
  have const: "isConst literalQuery" by code_simp
  from FindNonConstCalls_skips_const [OF appGraph_run m e site arg const]
  have "edgeBody (SSA ` set [sinkQuery, sinkQueryContext]) sinkQuery [unsafeSite] (edgeFrom safeSite)
       = Inr [unsafeSite]"
    by blast
  with appGraph_run m e site arg const show ?thesis by (intro conjI)
qed

text \<open>
  Claim C3, with the test the code makes. For an evaluated edge whose argument is not a
  constant: when the argument is an interface-wrapped value and \<^verbatim>\<open>Referrers()\<close> of the
  wrapped value is nil (package \<^verbatim>\<open>ssa\<close> records no uses for it, as for a constant or a
  global) or the static type of the wrapped value is not exactly \<^verbatim>\<open>string\<close>, the edge is
  skipped; in every other case the call site is recorded as unsafe.
\<close>

theorem FindNonConstCalls_boxing:
  assumes run: "FindNonConstCalls DeleteSyntheticNodes cg qms = Inr bad"
    and m: "m \<in> set qms"
    and e: "e \<in> set (In (CreateNode (DeleteSyntheticNodes cg) (SSA m)))"
    and site: "Site e = Some site"
    and caller: "Parent site \<notin> SSA ` set qms"
    and pkg: "PkgPath (Caller e) = Some path" "\<not> tracked path"
    and arg: "sinkArgument m site = Inr v" "\<not> isConst v"
  shows "((\<exists>box t x. v = MakeInterface box t x \<and> IsInterface t \<and>
              (Referrers x = None \<or> Type x \<noteq> TString))
            \<longrightarrow> (\<forall>acc. edgeBody (SSA ` set qms) m acc e = Inr acc))
       \<and> (\<not> (\<exists>box t x. v = MakeInterface box t x \<and> IsInterface t \<and>
              (Referrers x = None \<or> Type x \<noteq> TString))
            \<longrightarrow> (\<forall>acc. edgeBody (SSA ` set qms) m acc e = Inr (acc @ [site])) \<and> site \<in> set bad)"
proof -
  have box: "boxedSafely v \<longleftrightarrow>
      (\<exists>box t x. v = MakeInterface box t x \<and> IsInterface t \<and>
              (Referrers x = None \<or> Type x \<noteq> TString))"
    by (cases v) (auto simp: boxedSafely_def)
  have body: "edgeBody (SSA ` set qms) m acc e =
      (if boxedSafely v then Inr acc else Inr (acc @ [site]))" for acc
    using edgeBody_eval [OF site caller pkg, of m acc] arg by simp
  have "site \<in> set bad" if "\<not> boxedSafely v"
  proof -
    from body [of "[]"] that have "edgeBody (set (map SSA qms)) m [] e = Inr [site]" by simp
    with FindNonConstCalls_members [OF run, of site] m e show ?thesis by blast
  qed
  with body show ?thesis unfolding box [symmetric] by simp
qed

text \<open>
  Claim C3 as it is worded fails: the wrapped value of \<open>boxedParameter\<close> has no use other
  than the boxing, so the claim has the call site skipped, but \<^verbatim>\<open>Referrers()\<close> is not nil
  and the type is \<^verbatim>\<open>string\<close>: the call site is recorded.
\<close>

theorem FindNonConstCalls_boxing_counterexample:
  "FindNonConstCalls noSyntheticNodes gormGraph [sinkWhere] = Inr [boxedParameterSite]
   \<and> edgeFrom boxedParameterSite \<in> set (In (CreateNode (noSyntheticNodes gormGraph) (SSA sinkWhere)))
   \<and> sinkArgument sinkWhere boxedParameterSite = Inr boxedParameter
   \<and> \<not> isConst boxedParameter
   \<and> boxedSafelyAsClaimed boxedParameter
   \<and> boxedParameterSite \<in> set [boxedParameterSite]"
proof -
  have "edgeFrom boxedParameterSite \<in> set (In (CreateNode (noSyntheticNodes gormGraph) (SSA sinkWhere)))"
    by code_simp
  moreover have "sinkArgument sinkWhere boxedParameterSite = Inr boxedParameter" by code_simp
  moreover have "\<not> isConst boxedParameter" by code_simp
  moreover have "boxedSafelyAsClaimed boxedParameter"
    by (simp add: boxedSafelyAsClaimed_def boxedParameter_def noUsesBeyondWrapping_def)
  ultimately show ?thesis using gormGraph_run by simp
qed

theorem FindNonConstCalls_boxing_witness:
  "FindNonConstCalls noSyntheticNodes gormGraph [sinkWhere] = Inr [boxedParameterSite]
   \<and> sinkWhere \<in> set [sinkWhere]
   \<and> edgeFrom boxedLiteralSite \<in> set (In (CreateNode (noSyntheticNodes gormGraph) (SSA sinkWhere)))
   \<and> Site (edgeFrom boxedLiteralSite) = Some boxedLiteralSite
   \<and> Parent boxedLiteralSite \<notin> SSA ` set [sinkWhere]
   \<and> PkgPath (Caller (edgeFrom boxedLiteralSite)) = Some ''example.com/app''
   \<and> \<not> tracked ''example.com/app''
   \<and> sinkArgument sinkWhere boxedLiteralSite = Inr boxedLiteral
   \<and> \<not> isConst boxedLiteral
   \<and> edgeBody (SSA ` set [sinkWhere]) sinkWhere [] (edgeFrom boxedLiteralSite) = Inr []"
proof -
  have m: "sinkWhere \<in> set [sinkWhere]" by simp
  have e: "edgeFrom boxedLiteralSite \<in> set (In (CreateNode (noSyntheticNodes gormGraph) (SSA sinkWhere)))"
    by code_simp
  have site: "Site (edgeFrom boxedLiteralSite) = Some boxedLiteralSite" by (simp add: edgeFrom_def)
  have caller: "Parent boxedLiteralSite \<notin> SSA ` set [sinkWhere]" by code_simp
  have pkg: "PkgPath (Caller (edgeFrom boxedLiteralSite)) = Some ''example.com/app''" by code_simp
  have untracked: "\<not> tracked ''example.com/app''" by code_simp
  have arg: "sinkArgument sinkWhere boxedLiteralSite = Inr boxedLiteral" by code_simp
  have nonconst: "\<not> isConst boxedLiteral" by code_simp
  have shape: "\<exists>box t x. boxedLiteral = MakeInterface box t x \<and> IsInterface t \<and>
      (Referrers x = None \<or> Type x \<noteq> TString)"
    by (simp add: boxedLiteral_def)
  from FindNonConstCalls_boxing [OF gormGraph_run m e site caller pkg untracked arg nonconst] shape
  have "edgeBody (SSA ` set [sinkWhere]) sinkWhere [] (edgeFrom boxedLiteralSite) = Inr []"
    by blast
  with gormGraph_run m e site caller pkg untracked arg nonconst show ?thesis by (intro conjI)
qed

text \<open>
  Claim C4. For an evaluated edge at a sink with recorded argument count \<open>ArgCount\<close>: when
  the argument list has \<open>ArgCount + 1\<close> elements the first is dropped before the list is
  indexed by \<open>Param\<close>; when it has exactly \<open>ArgCount\<close> elements it is used as it is; for
  any other length the loop body panics with the argument count mismatch and
  \<^verbatim>\<open>FindNonConstCalls\<close> aborts, returning no list of findings. The value selected this way
  is the one that decides the edge.
\<close>

theorem FindNonConstCalls_arg_count:
  assumes m: "m \<in> set qms"
    and e: "e \<in> set (In (CreateNode (DeleteSyntheticNodes cg) (SSA m)))"
    and site: "Site e = Some site"
    and caller: "Parent site \<notin> SSA ` set qms"
    and pkg: "PkgPath (Caller e) = Some path" "\<not> tracked path"
  shows "(0 \<le> ArgCount m \<and> int (length (Args site)) = ArgCount m + 1
            \<longrightarrow> sinkArgument m site = go_index (tl (Args site)) (Param m))
       \<and> (int (length (Args site)) = ArgCount m
            \<longrightarrow> sinkArgument m site = go_index (Args site) (Param m))
       \<and> (int (length (Args site)) \<noteq> ArgCount m + 1 \<and> int (length (Args site)) \<noteq> ArgCount m
            \<longrightarrow> (\<forall>acc. edgeBody (SSA ` set qms) m acc e = Inl ArgCountMismatch)
               \<and> (\<exists>err. FindNonConstCalls DeleteSyntheticNodes cg qms = Inl err))
       \<and> (\<forall>acc. edgeBody (SSA ` set qms) m acc e =
            (case sinkArgument m site of
               Inl err \<Rightarrow> Inl err
             | Inr v \<Rightarrow> if isConst v \<or> boxedSafely v then Inr acc else Inr (acc @ [site])))"
proof -
  have body: "edgeBody (SSA ` set qms) m acc e =
            (case sinkArgument m site of
               Inl err \<Rightarrow> Inl err
             | Inr v \<Rightarrow> if isConst v \<or> boxedSafely v then Inr acc else Inr (acc @ [site]))" for acc
    by (rule edgeBody_eval [OF site caller pkg])
  have drop: "sinkArgument m site = go_index (tl (Args site)) (Param m)"
    if "0 \<le> ArgCount m" "int (length (Args site)) = ArgCount m + 1"
    using that by (cases "Args site") (auto simp: sinkArgument_def sinkArgs_def)
  have keep: "sinkArgument m site = go_index (Args site) (Param m)"
    if "int (length (Args site)) = ArgCount m"
    using that by (simp add: sinkArgument_def sinkArgs_def)
  have abort: "(\<forall>acc. edgeBody (SSA ` set qms) m acc e = Inl ArgCountMismatch)
               \<and> (\<exists>err. FindNonConstCalls DeleteSyntheticNodes cg qms = Inl err)"
    if "int (length (Args site)) \<noteq> ArgCount m + 1" "int (length (Args site)) \<noteq> ArgCount m"
  proof -
    from that have "sinkArgument m site = Inl ArgCountMismatch"
      by (simp add: sinkArgument_def sinkArgs_def)
    with body have b: "edgeBody (SSA ` set qms) m acc e = Inl ArgCountMismatch" for acc by simp
    from b [of "[]"] have "edgeBody (set (map SSA qms)) m [] e = Inl ArgCountMismatch" by simp
    from FindNonConstCalls_aborts [where dsn = DeleteSyntheticNodes and cg = cg, OF m e this] b show ?thesis by blast
  qed
  from body drop keep abort show ?thesis by blast
qed

theorem FindNonConstCalls_arg_count_witness:
  "sinkQuery \<in> set [sinkQuery, sinkQueryContext]
   \<and> edgeFrom shortSite \<in> set (In (CreateNode (noSyntheticNodes brokenGraph) (SSA sinkQuery)))
   \<and> Site (edgeFrom shortSite) = Some shortSite
   \<and> Parent shortSite \<notin> SSA ` set [sinkQuery, sinkQueryContext]
   \<and> PkgPath (Caller (edgeFrom shortSite)) = Some ''example.com/app''
   \<and> \<not> tracked ''example.com/app''
   \<and> int (length (Args shortSite)) \<noteq> ArgCount sinkQuery + 1
   \<and> int (length (Args shortSite)) \<noteq> ArgCount sinkQuery
   \<and> edgeBody (SSA ` set [sinkQuery, sinkQueryContext]) sinkQuery [] (edgeFrom shortSite)
       = Inl ArgCountMismatch
   \<and> FindNonConstCalls noSyntheticNodes brokenGraph [sinkQuery, sinkQueryContext] = Inl ArgCountMismatch
   \<and> edgeFrom unsafeSite \<in> set (In (CreateNode (noSyntheticNodes appGraph) (SSA sinkQuery)))
   \<and> 0 \<le> ArgCount sinkQuery \<and> int (length (Args unsafeSite)) = ArgCount sinkQuery + 1
   \<and> sinkArgument sinkQuery unsafeSite = go_index (tl (Args unsafeSite)) (Param sinkQuery)"
proof -
  have m: "sinkQuery \<in> set [sinkQuery, sinkQueryContext]" by simp
  have e: "edgeFrom shortSite \<in> set (In (CreateNode (noSyntheticNodes brokenGraph) (SSA sinkQuery)))"
    by code_simp
  have site: "Site (edgeFrom shortSite) = Some shortSite" by (simp add: edgeFrom_def)
  have caller: "Parent shortSite \<notin> SSA ` set [sinkQuery, sinkQueryContext]" by code_simp
  have pkg: "PkgPath (Caller (edgeFrom shortSite)) = Some ''example.com/app''" by code_simp
  have untracked: "\<not> tracked ''example.com/app''" by code_simp
  have len1: "int (length (Args shortSite)) \<noteq> ArgCount sinkQuery + 1"
    by (simp add: shortSite_def sinkQuery_def)
  have len2: "int (length (Args shortSite)) \<noteq> ArgCount sinkQuery"
    by (simp add: shortSite_def sinkQuery_def)
  from FindNonConstCalls_arg_count [where DeleteSyntheticNodes = noSyntheticNodes and cg = brokenGraph,
      OF m e site caller pkg untracked] len1 len2
  have abort: "edgeBody (SSA ` set [sinkQuery, sinkQueryContext]) sinkQuery [] (edgeFrom shortSite)
       = Inl ArgCountMismatch"
    by blast
  have e': "edgeFrom unsafeSite \<in> set (In (CreateNode (noSyntheticNodes appGraph) (SSA sinkQuery)))"
    by code_simp
  have site': "Site (edgeFrom unsafeSite) = Some unsafeSite" by (simp add: edgeFrom_def)
  have caller': "Parent unsafeSite \<notin> SSA ` set [sinkQuery, sinkQueryContext]" by code_simp
  have pkg': "PkgPath (Caller (edgeFrom unsafeSite)) = Some ''example.com/app''" by code_simp
  have count: "0 \<le> ArgCount sinkQuery" "int (length (Args unsafeSite)) = ArgCount sinkQuery + 1"
    by (simp_all add: unsafeSite_def sinkQuery_def)
  from FindNonConstCalls_arg_count [where DeleteSyntheticNodes = noSyntheticNodes and cg = appGraph,
      OF m e' site' caller' pkg' untracked] count
  have drop: "sinkArgument sinkQuery unsafeSite = go_index (tl (Args unsafeSite)) (Param sinkQuery)"
    by blast
  from m e site caller pkg untracked len1 len2 abort brokenGraph_run e' count drop
  show ?thesis by (intro conjI)
qed

text \<open>
  Claim C8, for the callers the detector does skip. Let \<^verbatim>\<open>FindNonConstCalls\<close> return its
  list. An edge whose caller's package path is one of the tracked package identifiers
  adds no call site, and a call site is in the returned list only when some edge that
  carries it has a caller outside the tracked packages. The list \<^verbatim>\<open>ignoredFiles\<close> plays
  no part in this; it is \<^verbatim>\<open>CheckIssues\<close> that reads it, and when it returns for the
  positions of the returned call sites, it has marked ignored every issue whose file
  path ends with an entry of the list.
\<close>

theorem FindNonConstCalls_skips_internal:
  assumes run: "FindNonConstCalls DeleteSyntheticNodes cg qms = Inr bad"
    and m: "m \<in> set qms"
    and e: "e \<in> set (In (CreateNode (DeleteSyntheticNodes cg) (SSA m)))"
    and site: "Site e = Some site"
    and pkg: "PkgPath (Caller e) = Some path" "tracked path"
  shows "(\<forall>acc. edgeBody (SSA ` set qms) m acc e = Inr acc)
       \<and> (site \<in> set bad \<longrightarrow>
            (\<exists>m'\<in>set qms. \<exists>e'\<in>set (In (CreateNode (DeleteSyntheticNodes cg) (SSA m'))).
               Site e' = Some site \<and>
               (\<exists>path'. PkgPath (Caller e') = Some path' \<and> \<not> tracked path')))
       \<and> (\<forall>order readFile issues.
            CheckIssues order readFile (potentialBadStatements bad) = Inr issues \<longrightarrow>
              (\<forall>i\<in>set issues. pathIsIgnored (Filename (statement i)) \<longrightarrow> ignored i))"
proof -
  from site pkg have "edgeBody (SSA ` set qms) m acc e = Inr acc" for acc
    by (simp add: edgeBody_def tracked_loop)
  moreover have "\<exists>m'\<in>set qms. \<exists>e'\<in>set (In (CreateNode (DeleteSyntheticNodes cg) (SSA m'))).
               Site e' = Some site \<and>
               (\<exists>path'. PkgPath (Caller e') = Some path' \<and> \<not> tracked path')"
    if "site \<in> set bad"
    using that FindNonConstCalls_members [OF run, of site] by (auto simp: edgeBody_flags)
  moreover have "ignored i"
    if c: "CheckIssues order readFile (potentialBadStatements bad) = Inr issues"
      and i: "i \<in> set issues" and p: "pathIsIgnored (Filename (statement i))"
    for order readFile issues i
  proof -
    from i CheckIssues_members [OF c] obtain p data where
      k: "checkLine (fileIsIgnoredLoop (Filename p) ignoredFiles) (Split data) p = Inr i"
      by blast
    from checkLine_statement [OF k] p have "fileIsIgnoredLoop (Filename p) ignoredFiles"
      by (simp add: pathIsIgnored_def fileIsIgnoredLoop_iff)
    with checkLine_ignored [OF k] show ?thesis by simp
  qed
  ultimately show ?thesis by blast
qed

text \<open>
  Claim C8 as it is worded fails: the call site in \<^verbatim>\<open>pgxpool/conn.go\<close> is in a file of the
  ignored-files list, but the package of its caller is \<^verbatim>\<open>github.com/jackc/pgx/v4/pgxpool\<close>,
  which is none of the tracked identifiers: \<^verbatim>\<open>FindNonConstCalls\<close> returns the call site,
  and it is \<^verbatim>\<open>CheckIssues\<close> that marks it ignored.
\<close>

theorem FindNonConstCalls_skips_internal_counterexample:
  "FindNonConstCalls noSyntheticNodes pgxGraph [sinkExec] = Inr [poolSite]
   \<and> edgeFrom poolSite \<in> set (In (CreateNode (noSyntheticNodes pgxGraph) (SSA sinkExec)))
   \<and> pathIsIgnored (Filename (Pos poolSite))
   \<and> internalAsClaimed (edgeFrom poolSite) poolSite
   \<and> poolSite \<in> set [poolSite]
   \<and> CheckIssues [poolFile] [poolFile \<mapsto> poolSource] (potentialBadStatements [poolSite])
       = Inr [\<lparr>statement = Pos poolSite, ignored = True\<rparr>]"
proof -
  have "edgeFrom poolSite \<in> set (In (CreateNode (noSyntheticNodes pgxGraph) (SSA sinkExec)))"
    by code_simp
  moreover have "pathIsIgnored (Filename (Pos poolSite))" by code_simp
  moreover have "internalAsClaimed (edgeFrom poolSite) poolSite" by code_simp
  moreover have "CheckIssues [poolFile] [poolFile \<mapsto> poolSource] (potentialBadStatements [poolSite])
       = Inr [\<lparr>statement = Pos poolSite, ignored = True\<rparr>]"
    by code_simp
  ultimately show ?thesis using pgxGraph_run by simp
qed

theorem FindNonConstCalls_skips_internal_witness:
  "FindNonConstCalls noSyntheticNodes pgxGraph [sinkExec] = Inr [poolSite]
   \<and> sinkExec \<in> set [sinkExec]
   \<and> edgeFrom txSite \<in> set (In (CreateNode (noSyntheticNodes pgxGraph) (SSA sinkExec)))
   \<and> Site (edgeFrom txSite) = Some txSite
   \<and> PkgPath (Caller (edgeFrom txSite)) = Some ''github.com/jackc/pgx/v4''
   \<and> tracked ''github.com/jackc/pgx/v4''
   \<and> edgeBody (SSA ` set [sinkExec]) sinkExec [] (edgeFrom txSite) = Inr []"
proof -
  have m: "sinkExec \<in> set [sinkExec]" by simp
  have e: "edgeFrom txSite \<in> set (In (CreateNode (noSyntheticNodes pgxGraph) (SSA sinkExec)))"
    by code_simp
  have site: "Site (edgeFrom txSite) = Some txSite" by (simp add: edgeFrom_def)
  have pkg: "PkgPath (Caller (edgeFrom txSite)) = Some ''github.com/jackc/pgx/v4''" by code_simp
  have tr: "tracked ''github.com/jackc/pgx/v4''" by code_simp
  from FindNonConstCalls_skips_internal [OF pgxGraph_run m e site pkg tr]
  have "edgeBody (SSA ` set [sinkExec]) sinkExec [] (edgeFrom txSite) = Inr []"
    by blast
  with pgxGraph_run m e site pkg tr show ?thesis by (intro conjI)
qed

end
